theory Spec2Isabelle
  imports Complex_Main "HOL-Library.Multiset" "HOL-Library.Sublist"
begin

section \<open>Data model\<close>

text \<open>
  The records of \<^verbatim>\<open>src/types.ts\<close> and \<^verbatim>\<open>src/live/types.ts\<close>. Field names carry a
  prefix where two interfaces share a name. Timestamps (milliseconds) and token counts
  are integers; a cost is a number, taken here in exact arithmetic (\<^typ>\<open>real\<close>), so
  the rounding of IEEE doubles is outside the model. An optional field \<^verbatim>\<open>f?: T\<close> is
  a \<^typ>\<open>'a option\<close>.
\<close>

record MessageTokens =
  t_input :: int
  t_output :: int
  t_reasoning :: int
  cache_read :: int
  cache_write :: int

record MessageRecord =
  m_id :: string
  m_sessionID :: string
  m_role :: string
  m_created :: int
  m_completed :: "int option"
  m_modelID :: "string option"
  m_providerID :: "string option"
  m_mode :: "string option"
  m_agent :: "string option"
  m_cost :: "real option"
  m_tokens :: "MessageTokens option"

datatype WindowSize = W5m | W1h | W5h | W24h
datatype ViewMode = Mtd | AllTime
datatype SortMode = ByCost | ByTokens | ByName

record ProviderBudget =
  monthlyTokens :: "int option"
  monthlyCost :: "real option"

record ProviderLimits =
  tokens5h :: "int option"
  tokensDaily :: "int option"
  cost5h :: "real option"
  costDaily :: "real option"

text \<open>
  A configuration object is a list of its own properties in the order of
  \<^verbatim>\<open>Object.keys\<close>; \<^verbatim>\<open>obj[key]\<close> is \<^const>\<open>map_of\<close>.
\<close>

type_synonym BudgetsConfig = "(string \<times> ProviderBudget) list"
type_synonym LimitsConfig = "(string \<times> ProviderLimits) list"

record RateLimitEvent =
  e_timestamp :: int
  e_providerID :: string
  e_modelID :: "string option"
  e_errorMessage :: string
  e_partID :: string

datatype HealthStatus = Ok | Warn | Throttled
datatype ModelHealthStatus = Active | Stale | Error

record ProviderHealth =
  ph_status :: HealthStatus
  rateLimitCount5m :: nat
  lastRateLimit :: "int option"

text \<open>
  \<^verbatim>\<open>lastSeen\<close> is \<^verbatim>\<open>Math.max(...)\<close> of a list of timestamps; \<^verbatim>\<open>Math.max()\<close> of no
  argument is \<^verbatim>\<open>-Infinity\<close>, written \<^const>\<open>None\<close> here.
\<close>

record ModelHealth =
  mh_status :: ModelHealthStatus
  mh_lastSeen :: "int option"
  providerThrottled :: bool

record WindowStats =
  totalTokens :: int
  totalInput :: int
  totalOutput :: int
  totalReasoning :: int
  totalCost :: real
  messageCount :: nat

record ProviderWindowStats = WindowStats +
  ps_providerID :: string
  ps_health :: ProviderHealth
  limitPercent :: "real option"
  budgetTokens :: "int option"
  budgetPercent :: "real option"
  budgetCost :: "real option"
  budgetCostPercent :: "real option"

record ModelWindowStats = WindowStats +
  ms_modelID :: string
  ms_providerID :: string
  ms_health :: ModelHealth
  sharePercent :: real
  ms_lastSeen :: "int option"

record TimeSeriesPoint =
  p_timestamp :: int
  p_tokens :: int
  p_cost :: real

record LiveState =
  messageIndex :: "string \<rightharpoonup> MessageRecord"
  messages :: "MessageRecord list"
  rateLimitEvents :: "RateLimitEvent list"
  limits :: LimitsConfig
  budgets :: BudgetsConfig
  currentWindow :: WindowSize
  viewMode :: ViewMode
  sortMode :: SortMode
  lastUpdate :: int
  timeSeries :: "TimeSeriesPoint list"

section \<open>JavaScript library functions\<close>

text \<open>
  \<^verbatim>\<open>Array.prototype.sort(cmp)\<close> is a stable sort: \<^verbatim>\<open>a\<close> stays before \<^verbatim>\<open>b\<close> unless
  \<^verbatim>\<open>cmp(a, b) > 0\<close>. Insertion from the right end gives exactly that order for a
  comparator that is a total preorder.
\<close>

fun insort_cmp :: "('a \<Rightarrow> 'a \<Rightarrow> 'n::linordered_idom) \<Rightarrow> 'a \<Rightarrow> 'a list \<Rightarrow> 'a list" where
  "insort_cmp cmp x [] = [x]"
| "insort_cmp cmp x (y # ys) =
     (if cmp x y \<le> 0 then x # y # ys else y # insort_cmp cmp x ys)"

definition sort_cmp :: "('a \<Rightarrow> 'a \<Rightarrow> 'n::linordered_idom) \<Rightarrow> 'a list \<Rightarrow> 'a list" where
  "sort_cmp cmp xs = foldr (insort_cmp cmp) xs []"

text \<open>\<^verbatim>\<open>x || "unknown"\<close> on an optional string: absent and empty are both falsy.\<close>

definition orUnknown :: "string option \<Rightarrow> string" where
  "orUnknown s = (case s of None \<Rightarrow> ''unknown'' | Some v \<Rightarrow> (if v = [] then ''unknown'' else v))"

text \<open>\<^verbatim>\<open>msg.cost || 0\<close>: an absent cost, and a cost of 0, count as 0.\<close>

definition costOrZero :: "MessageRecord \<Rightarrow> real" where
  "costOrZero msg = (case m_cost msg of None \<Rightarrow> 0 | Some c \<Rightarrow> c)"

section \<open>Window statistics (\<^verbatim>\<open>computeWindowStats\<close>)\<close>

definition emptyStats :: WindowStats where
  "emptyStats = \<lparr> totalTokens = 0, totalInput = 0, totalOutput = 0, totalReasoning = 0,
     totalCost = 0, messageCount = 0 \<rparr>"

definition statsStep :: "WindowStats \<Rightarrow> MessageRecord \<Rightarrow> WindowStats" where
  "statsStep acc msg =
     (case m_tokens msg of
        None \<Rightarrow> acc
      | Some t \<Rightarrow>
          (let tokens = t_input t + t_output t + t_reasoning t in
           \<lparr> totalTokens = totalTokens acc + tokens,
             totalInput = totalInput acc + t_input t,
             totalOutput = totalOutput acc + t_output t,
             totalReasoning = totalReasoning acc + t_reasoning t,
             totalCost = totalCost acc + costOrZero msg,
             messageCount = messageCount acc + 1 \<rparr>))"

definition computeWindowStats :: "MessageRecord list \<Rightarrow> WindowStats" where
  "computeWindowStats msgs = foldl statsStep emptyStats msgs"

text \<open>What one message adds to each total; nothing without token data.\<close>

definition tokensOf :: "(MessageTokens \<Rightarrow> int) \<Rightarrow> MessageRecord \<Rightarrow> int" where
  "tokensOf f msg = (case m_tokens msg of None \<Rightarrow> 0 | Some t \<Rightarrow> f t)"

definition msgTokens :: "MessageRecord \<Rightarrow> int" where
  "msgTokens msg = tokensOf (\<lambda>t. t_input t + t_output t + t_reasoning t) msg"

definition msgCost :: "MessageRecord \<Rightarrow> real" where
  "msgCost msg = (case m_tokens msg of None \<Rightarrow> 0 | Some t \<Rightarrow> costOrZero msg)"

definition hasTokens :: "MessageRecord \<Rightarrow> bool" where
  "hasTokens msg = (m_tokens msg \<noteq> None)"

section \<open>Live state: ingestion\<close>

text \<open>
  The state module (the last part of \<^verbatim>\<open>src/live/calendar.ts\<close>, from
  \<^verbatim>\<open>createInitialState\<close> on). The state is passed explicitly and returned updated. \<^verbatim>\<open>Date.now()\<close> is the argument
  \<open>now\<close> of every function that reads the clock; one synchronous call sees one
  reading. \<^verbatim>\<open>getMonthStartTimestamp()\<close> reads the clock and the time-zone database of
  the host; its value at the call is the argument \<open>monthStart\<close>.
\<close>

definition STALE_THRESHOLD_MS :: int where
  "STALE_THRESHOLD_MS = 30 * 60 * 1000"

definition createInitialState :: "int \<Rightarrow> LiveState" where
  "createInitialState now =
     \<lparr> messageIndex = Map.empty, messages = [], rateLimitEvents = [], limits = [],
       budgets = [], currentWindow = W5h, viewMode = Mtd, sortMode = ByCost,
       lastUpdate = now, timeSeries = [] \<rparr>"

text \<open>
  \<^verbatim>\<open>existing.tokens += ...; existing.cost += ...\<close> on the point that \<^verbatim>\<open>find\<close> returned:
  the first point of that minute, updated in place.
\<close>

fun bumpFirst :: "int \<Rightarrow> int \<Rightarrow> real \<Rightarrow> TimeSeriesPoint list \<Rightarrow> TimeSeriesPoint list" where
  "bumpFirst b tk c [] = []"
| "bumpFirst b tk c (p # ps) =
     (if p_timestamp p = b
      then p\<lparr> p_tokens := p_tokens p + tk, p_cost := p_cost p + c \<rparr> # ps
      else p # bumpFirst b tk c ps)"

definition updateTimeSeries :: "LiveState \<Rightarrow> MessageRecord \<Rightarrow> LiveState" where
  "updateTimeSeries state msg =
     (case m_tokens msg of
        None \<Rightarrow> state
      | Some t \<Rightarrow>
          (let minuteBucket = (m_created msg div 60000) * 60000;
               existing = find (\<lambda>p. p_timestamp p = minuteBucket) (timeSeries state);
               tokenTotal = t_input t + t_output t + t_reasoning t
           in case existing of
                Some _ \<Rightarrow>
                  state\<lparr> timeSeries :=
                    bumpFirst minuteBucket tokenTotal (costOrZero msg) (timeSeries state) \<rparr>
              | None \<Rightarrow>
                  state\<lparr> timeSeries :=
                    sort_cmp (\<lambda>a b. p_timestamp a - p_timestamp b)
                      (timeSeries state @
                        [\<lparr> p_timestamp = minuteBucket, p_tokens = tokenTotal,
                           p_cost = costOrZero msg \<rparr>]) \<rparr>))"

definition addMessage :: "int \<Rightarrow> LiveState \<Rightarrow> MessageRecord \<Rightarrow> bool \<times> LiveState" where
  "addMessage now state msg =
     (if messageIndex state (m_id msg) \<noteq> None then (False, state)
      else (True,
        updateTimeSeries
          (state\<lparr> messageIndex := (messageIndex state)(m_id msg \<mapsto> msg),
                  messages := sort_cmp (\<lambda>a b. m_created a - m_created b) (messages state @ [msg]),
                  lastUpdate := now \<rparr>)
          msg))"

fun addMessagesLoop :: "int \<Rightarrow> LiveState \<Rightarrow> MessageRecord list \<Rightarrow> nat \<Rightarrow> nat \<times> LiveState" where
  "addMessagesLoop now state [] added = (added, state)"
| "addMessagesLoop now state (msg # msgs) added =
     (case addMessage now state msg of
        (True, state') \<Rightarrow> addMessagesLoop now state' msgs (added + 1)
      | (False, state') \<Rightarrow> addMessagesLoop now state' msgs added)"

definition addMessages :: "int \<Rightarrow> LiveState \<Rightarrow> MessageRecord list \<Rightarrow> nat \<times> LiveState" where
  "addMessages now state msgs = addMessagesLoop now state msgs 0"

definition addRateLimitEvent :: "LiveState \<Rightarrow> RateLimitEvent \<Rightarrow> LiveState" where
  "addRateLimitEvent state event =
     state\<lparr> rateLimitEvents :=
       sort_cmp (\<lambda>a b. e_timestamp a - e_timestamp b) (rateLimitEvents state @ [event]) \<rparr>"

section \<open>Live state: windows\<close>

definition getMessagesInWindow :: "int \<Rightarrow> LiveState \<Rightarrow> int \<Rightarrow> MessageRecord list" where
  "getMessagesInWindow now state windowMs =
     (let cutoff = now - windowMs in filter (\<lambda>m. m_created m \<ge> cutoff) (messages state))"

definition getMessagesMTD :: "int \<Rightarrow> LiveState \<Rightarrow> MessageRecord list" where
  "getMessagesMTD monthStart state = filter (\<lambda>m. m_created m \<ge> monthStart) (messages state)"

definition getAllMessages :: "LiveState \<Rightarrow> MessageRecord list" where
  "getAllMessages state = messages state"

definition getRateLimitsInWindow :: "int \<Rightarrow> LiveState \<Rightarrow> int \<Rightarrow> RateLimitEvent list" where
  "getRateLimitsInWindow now state windowMs =
     (let cutoff = now - windowMs in filter (\<lambda>e. e_timestamp e \<ge> cutoff) (rateLimitEvents state))"

definition getWindowStats :: "int \<Rightarrow> LiveState \<Rightarrow> int \<Rightarrow> WindowStats" where
  "getWindowStats now state windowMs = computeWindowStats (getMessagesInWindow now state windowMs)"

definition getMTDStats :: "int \<Rightarrow> LiveState \<Rightarrow> WindowStats" where
  "getMTDStats monthStart state = computeWindowStats (getMessagesMTD monthStart state)"

definition getAllTimeStats :: "LiveState \<Rightarrow> WindowStats" where
  "getAllTimeStats state = computeWindowStats (messages state)"

section \<open>Health classification\<close>

text \<open>
  \<^verbatim>\<open>lastRateLimit && Date.now() - lastRateLimit < 5 * 60 * 1000\<close>: an absent timestamp
  and the timestamp 0 are both falsy.
\<close>

definition computeHealthStatus :: "int \<Rightarrow> nat \<Rightarrow> int option \<Rightarrow> HealthStatus" where
  "computeHealthStatus now count5m lastRL =
     (if count5m \<ge> 3 then Throttled
      else if count5m \<ge> 1 then Warn
      else if (case lastRL of None \<Rightarrow> False | Some l \<Rightarrow> l \<noteq> 0 \<and> now - l < 5 * 60 * 1000)
      then Warn
      else Ok)"

text \<open>With \<^verbatim>\<open>lastSeen = -Infinity\<close> the difference is \<^verbatim>\<open>Infinity\<close>, above the threshold.\<close>

definition computeModelHealthStatus :: "int \<Rightarrow> int option \<Rightarrow> bool \<Rightarrow> ModelHealthStatus" where
  "computeModelHealthStatus now lastSeen throttled =
     (if throttled then Error
      else if (case lastSeen of None \<Rightarrow> True | Some l \<Rightarrow> now - l > STALE_THRESHOLD_MS)
      then Stale
      else Active)"

section \<open>Grouping\<close>

text \<open>
  A \<^verbatim>\<open>Map<string, T[]>\<close> filled by \<^verbatim>\<open>existing = map.get(k) || []; existing.push(v);
  map.set(k, existing)\<close>: keys stay in the order of their first insertion.
\<close>

fun groupPush :: "string \<Rightarrow> 'a \<Rightarrow> (string \<times> 'a list) list \<Rightarrow> (string \<times> 'a list) list" where
  "groupPush k v [] = [(k, [v])]"
| "groupPush k v ((k', vs) # g) =
     (if k' = k then (k', vs @ [v]) # g else (k', vs) # groupPush k v g)"

definition groupBy :: "('a \<Rightarrow> string) \<Rightarrow> 'a list \<Rightarrow> (string \<times> 'a list) list" where
  "groupBy key xs = foldl (\<lambda>g x. groupPush (key x) x g) [] xs"

text \<open>\<^verbatim>\<open>map.get(k) || []\<close>\<close>

definition getOrEmpty :: "(string \<times> 'a list) list \<Rightarrow> string \<Rightarrow> 'a list" where
  "getOrEmpty g k = (case map_of g k of None \<Rightarrow> [] | Some vs \<Rightarrow> vs)"

text \<open>A \<^verbatim>\<open>Set\<close>, as the list of its elements in insertion order.\<close>

definition setAdd :: "'a list \<Rightarrow> 'a \<Rightarrow> 'a list" where
  "setAdd s x = (if x \<in> set s then s else s @ [x])"

definition newSet :: "'a list \<Rightarrow> 'a list" where
  "newSet xs = foldl setAdd [] xs"

fun Math_max :: "int list \<Rightarrow> int option" where
  "Math_max [] = None"
| "Math_max (x # xs) = Some (foldl max x xs)"

text \<open>\<^verbatim>\<open>if (budget?.monthlyTokens)\<close>: an absent ceiling and a ceiling of 0 are both falsy.\<close>

definition truthy :: "'n::zero option \<Rightarrow> 'n option" where
  "truthy v = (case v of None \<Rightarrow> None | Some c \<Rightarrow> (if c = 0 then None else Some c))"

section \<open>Provider statistics (\<^verbatim>\<open>computeProviderStats\<close>)\<close>

definition msgProvider :: "MessageRecord \<Rightarrow> string" where
  "msgProvider msg = orUnknown (m_providerID msg)"

text \<open>The body of the loop over \<^verbatim>\<open>allProviders\<close>: the entry pushed for one provider.\<close>

definition providerEntry ::
  "int \<Rightarrow> LiveState \<Rightarrow> (string \<times> MessageRecord list) list \<Rightarrow>
   (string \<times> RateLimitEvent list) list \<Rightarrow> string \<Rightarrow> ProviderWindowStats" where
  "providerEntry now state groups rateLimitsByProvider providerID =
     (let providerMsgs = getOrEmpty groups providerID;
          stats = computeWindowStats providerMsgs;
          providerRateLimits = getOrEmpty rateLimitsByProvider providerID;
          lastRL = (if length providerRateLimits > 0
                    then Math_max (map e_timestamp providerRateLimits) else None);
          health = \<lparr> ph_status = computeHealthStatus now (length providerRateLimits) lastRL,
                     rateLimitCount5m = length providerRateLimits,
                     lastRateLimit = lastRL \<rparr>;
          budget = map_of (budgets state) providerID;
          bTokens = truthy (case budget of None \<Rightarrow> None | Some b \<Rightarrow> monthlyTokens b);
          bCost = truthy (case budget of None \<Rightarrow> None | Some b \<Rightarrow> monthlyCost b)
      in \<lparr> totalTokens = totalTokens stats, totalInput = totalInput stats,
           totalOutput = totalOutput stats, totalReasoning = totalReasoning stats,
           totalCost = totalCost stats, messageCount = messageCount stats,
           ps_providerID = providerID,
           ps_health = health,
           limitPercent = None,
           budgetTokens = bTokens,
           budgetPercent =
             map_option (\<lambda>c. (real_of_int (totalTokens stats) / real_of_int c) * 100) bTokens,
           budgetCost = bCost,
           budgetCostPercent = map_option (\<lambda>c. (totalCost stats / c) * 100) bCost \<rparr>)"

definition computeProviderStats ::
  "int \<Rightarrow> LiveState \<Rightarrow> MessageRecord list \<Rightarrow> ProviderWindowStats list" where
  "computeProviderStats now state msgs =
     (let rateLimits5m = getRateLimitsInWindow now state (5 * 60 * 1000);
          groups = groupBy msgProvider msgs;
          rateLimitsByProvider = groupBy e_providerID rateLimits5m;
          allProviders = newSet (map fst groups @ map fst rateLimitsByProvider
                                   @ map fst (budgets state));
          results = map (providerEntry now state groups rateLimitsByProvider) allProviders
      in sort_cmp (\<lambda>a b. totalCost b - totalCost a) results)"

definition getProviderStatsMTD :: "int \<Rightarrow> int \<Rightarrow> LiveState \<Rightarrow> ProviderWindowStats list" where
  "getProviderStatsMTD now monthStart state =
     computeProviderStats now state (getMessagesMTD monthStart state)"

definition getProviderStatsAll :: "int \<Rightarrow> LiveState \<Rightarrow> ProviderWindowStats list" where
  "getProviderStatsAll now state = computeProviderStats now state (messages state)"

section \<open>Model statistics (\<^verbatim>\<open>computeModelStats\<close>)\<close>

definition msgModel :: "MessageRecord \<Rightarrow> string" where
  "msgModel msg = orUnknown (m_modelID msg)"

definition throttledProviders :: "RateLimitEvent list \<Rightarrow> string list" where
  "throttledProviders rateLimits5m =
     foldl (\<lambda>s event.
         if length (filter (\<lambda>e. e_providerID e = e_providerID event) rateLimits5m) \<ge> 3
         then setAdd s (e_providerID event) else s)
       [] rateLimits5m"

text \<open>The entry pushed for one group; \<^verbatim>\<open>msgs[0]?.providerID || "unknown"\<close>.\<close>

definition modelEntry ::
  "int \<Rightarrow> string list \<Rightarrow> WindowStats \<Rightarrow> string \<times> MessageRecord list \<Rightarrow> ModelWindowStats" where
  "modelEntry now throttled totalStats grp =
     (let modelID = fst grp; msgs = snd grp;
          stats = computeWindowStats msgs;
          providerID = orUnknown (case msgs of [] \<Rightarrow> None | m # _ \<Rightarrow> m_providerID m);
          lastSeen = Math_max (map m_created msgs);
          isThrottled = (providerID \<in> set throttled);
          share = (if totalTokens totalStats > 0
                   then (real_of_int (totalTokens stats) / real_of_int (totalTokens totalStats)) * 100
                   else 0)
      in \<lparr> totalTokens = totalTokens stats, totalInput = totalInput stats,
           totalOutput = totalOutput stats, totalReasoning = totalReasoning stats,
           totalCost = totalCost stats, messageCount = messageCount stats,
           ms_modelID = modelID,
           ms_providerID = providerID,
           ms_health = \<lparr> mh_status = computeModelHealthStatus now lastSeen isThrottled,
                         mh_lastSeen = lastSeen,
                         providerThrottled = isThrottled \<rparr>,
           sharePercent = share,
           ms_lastSeen = lastSeen \<rparr>)"

text \<open>
  \<^verbatim>\<open>String.prototype.localeCompare\<close> depends on the host's collation; it is the
  argument \<open>localeCompare\<close>.
\<close>

definition computeModelStats ::
  "(string \<Rightarrow> string \<Rightarrow> int) \<Rightarrow> int \<Rightarrow> LiveState \<Rightarrow> MessageRecord list \<Rightarrow> SortMode \<Rightarrow>
   ModelWindowStats list" where
  "computeModelStats localeCompare now state msgs mode =
     (let rateLimits5m = getRateLimitsInWindow now state (5 * 60 * 1000);
          throttled = throttledProviders rateLimits5m;
          groups = groupBy msgModel msgs;
          totalStats = computeWindowStats msgs;
          results = map (modelEntry now throttled totalStats) groups
      in case mode of
           ByCost \<Rightarrow> sort_cmp (\<lambda>a b. totalCost b - totalCost a) results
         | ByTokens \<Rightarrow> sort_cmp (\<lambda>a b. totalTokens b - totalTokens a) results
         | ByName \<Rightarrow> sort_cmp (\<lambda>a b. localeCompare (ms_modelID a) (ms_modelID b)) results)"

section \<open>Pruning (\<^verbatim>\<open>pruneOldData\<close>)\<close>

text \<open>
  The default of \<^verbatim>\<open>maxAgeMs\<close> is 90 days. \<^verbatim>\<open>new Map(entries)\<close> sets the entries in
  order, so the last entry of a key is the one kept.
\<close>

definition pruneOldData :: "int \<Rightarrow> LiveState \<Rightarrow> int option \<Rightarrow> LiveState" where
  "pruneOldData now state maxAge =
     (let maxAgeMs = (case maxAge of None \<Rightarrow> 90 * 24 * 60 * 60 * 1000 | Some a \<Rightarrow> a);
          cutoff = now - maxAgeMs;
          kept = filter (\<lambda>m. m_created m \<ge> cutoff) (messages state)
      in state\<lparr> messages := kept,
                messageIndex := map_of (rev (map (\<lambda>m. (m_id m, m)) kept)),
                rateLimitEvents := filter (\<lambda>e. e_timestamp e \<ge> cutoff) (rateLimitEvents state),
                timeSeries := filter (\<lambda>p. p_timestamp p \<ge> cutoff) (timeSeries state) \<rparr>)"

section \<open>Sequences of ingestion calls\<close>

text \<open>One call of the ingestion interface, with the clock reading it sees.\<close>

datatype Call =
    AddMessage int MessageRecord
  | AddMessages int "MessageRecord list"
  | AddRateLimitEvent RateLimitEvent

fun call :: "LiveState \<Rightarrow> Call \<Rightarrow> LiveState" where
  "call state (AddMessage now msg) = snd (addMessage now state msg)"
| "call state (AddMessages now msgs) = snd (addMessages now state msgs)"
| "call state (AddRateLimitEvent event) = addRateLimitEvent state event"

definition run :: "LiveState \<Rightarrow> Call list \<Rightarrow> LiveState" where
  "run state calls = foldl call state calls"

section \<open>Rate-limit detection\<close>

text \<open>The rate-limit watcher (\<^verbatim>\<open>unnamed/part_000\<close>): its pure functions.\<close>

record PartState =
  st_status :: "string option"
  st_output :: "string option"
  st_error :: "string option"

record PartRecord =
  part_id :: string
  part_sessionID :: string
  part_messageID :: string
  part_type :: string
  part_tool :: "string option"
  part_state :: "PartState option"

text \<open>
  Strings are lists of characters. \<^verbatim>\<open>toLowerCase\<close> and the \<^verbatim>\<open>i\<close> flag of a regular
  expression fold the case of the letters A to Z; every other character is left as it is
  (the model covers ASCII text).
\<close>

definition toLowerChar :: "char \<Rightarrow> char" where
  "toLowerChar c =
     (case map_of (zip ''ABCDEFGHIJKLMNOPQRSTUVWXYZ'' ''abcdefghijklmnopqrstuvwxyz'') c of
        None \<Rightarrow> c
      | Some l \<Rightarrow> l)"

definition toLowerCase :: "string \<Rightarrow> string" where
  "toLowerCase s = map toLowerChar s"

text \<open>\<^verbatim>\<open>s.includes(needle)\<close>: \<open>needle\<close> occurs in \<open>s\<close> as a contiguous substring.\<close>

fun str_includes :: "string \<Rightarrow> string \<Rightarrow> bool" where
  "str_includes [] needle = (needle = [])"
| "str_includes (c # cs) needle = (prefix needle (c # cs) \<or> str_includes cs needle)"

text \<open>
  The sources of the regular expressions of \<^verbatim>\<open>RATE_LIMIT_PATTERNS\<close>; each is a literal
  (no metacharacter) with the flag \<^verbatim>\<open>i\<close>, so \<^verbatim>\<open>pattern.test(text)\<close> is a
  case-insensitive substring search.
\<close>

definition RATE_LIMIT_PATTERNS :: "string list" where
  "RATE_LIMIT_PATTERNS =
     [''429'', ''too many requests'', ''rate limit'', ''throttl'', ''quota exceeded'',
      ''capacity'']"

definition regexTestI :: "string \<Rightarrow> string \<Rightarrow> bool" where
  "regexTestI pattern text = str_includes (toLowerCase text) (toLowerCase pattern)"

text \<open>\<^verbatim>\<open>PROVIDER_HINTS\<close>, in the order of \<^verbatim>\<open>Object.entries\<close>.\<close>

definition PROVIDER_HINTS :: "(string \<times> string list) list" where
  "PROVIDER_HINTS =
     [(''anthropic'', [''claude'', ''anthropic'', ''sonnet'', ''opus'', ''haiku'']),
      (''openai'', [''openai'', ''gpt'', ''o1'', ''o3'', ''chatgpt'']),
      (''google'', [''google'', ''gemini'', ''palm'', ''vertex'']),
      (''openrouter'', [''openrouter''])]"

text \<open>\<^verbatim>\<open>s || ""\<close> on an optional string.\<close>

definition orEmpty :: "string option \<Rightarrow> string" where
  "orEmpty s = (case s of None \<Rightarrow> [] | Some v \<Rightarrow> v)"

fun firstProvider :: "(string \<times> string list) list \<Rightarrow> string \<Rightarrow> string" where
  "firstProvider [] lower = ''unknown''"
| "firstProvider ((provider, hints) # rest) lower =
     (if list_ex (\<lambda>h. str_includes lower h) hints then provider else firstProvider rest lower)"

definition detectProvider :: "string \<Rightarrow> string option \<Rightarrow> string" where
  "detectProvider text tool =
     (let lower = toLowerCase (text @ orEmpty tool) in firstProvider PROVIDER_HINTS lower)"

text \<open>\<^verbatim>\<open>part.state?.status\<close>, \<^verbatim>\<open>part.state?.output\<close>, \<^verbatim>\<open>part.state?.error\<close>\<close>

definition stateField :: "(PartState \<Rightarrow> string option) \<Rightarrow> PartRecord \<Rightarrow> string option" where
  "stateField f part = (case part_state part of None \<Rightarrow> None | Some st \<Rightarrow> f st)"

definition isRateLimitError :: "PartRecord \<Rightarrow> bool" where
  "isRateLimitError part =
     (if stateField st_status part \<noteq> Some ''completed''
         \<and> stateField st_status part \<noteq> Some ''error''
      then False
      else
        (let textToCheck =
               orEmpty (stateField st_output part) @ '' '' @ orEmpty (stateField st_error part)
         in list_ex (\<lambda>pattern. regexTestI pattern textToCheck) RATE_LIMIT_PATTERNS))"

text \<open>
  \<^verbatim>\<open>part.state?.output || part.state?.error || ""\<close>: the output unless it is absent or
  empty, else the error.
\<close>

definition errorMessageOf :: "PartRecord \<Rightarrow> string" where
  "errorMessageOf part =
     (if orEmpty (stateField st_output part) \<noteq> [] then orEmpty (stateField st_output part)
      else orEmpty (stateField st_error part))"

text \<open>
  The event that \<^verbatim>\<open>processNewFile\<close> emits for a part read at time \<open>now\<close>, if any
  (\<^verbatim>\<open>loadRecentEvents\<close> builds the same event with the file's modification time).
\<close>

definition rateLimitEventOf :: "int \<Rightarrow> PartRecord \<Rightarrow> RateLimitEvent option" where
  "rateLimitEventOf now part =
     (if isRateLimitError part
      then (let errorMessage = errorMessageOf part in
            Some \<lparr> e_timestamp = now,
                   e_providerID = detectProvider errorMessage (part_tool part),
                   e_modelID = None,
                   e_errorMessage = take 200 errorMessage,
                   e_partID = part_id part \<rparr>)
      else None)"

section \<open>Quantities and invariants named by the claims\<close>

text \<open>Both ledgers are sorted ascending by their timestamp.\<close>

definition ledgersSorted :: "LiveState \<Rightarrow> bool" where
  "ledgersSorted st =
     (sorted (map m_created (messages st)) \<and> sorted (map e_timestamp (rateLimitEvents st)))"

text \<open>The sums over the time series agree with the all-time statistics of the ledger.\<close>

definition seriesConsistent :: "LiveState \<Rightarrow> bool" where
  "seriesConsistent st =
     (sum_list (map p_tokens (timeSeries st)) = totalTokens (getAllTimeStats st)
      \<and> sum_list (map p_cost (timeSeries st)) = totalCost (getAllTimeStats st))"

text \<open>
  The number of rate-limit events of provider \<open>p\<close> with a timestamp in the trailing
  5-minute window.
\<close>

definition count5m :: "int \<Rightarrow> LiveState \<Rightarrow> string \<Rightarrow> nat" where
  "count5m now st p =
     length (filter (\<lambda>e. e_timestamp e \<ge> now - 5 * 60 * 1000 \<and> e_providerID e = p)
       (rateLimitEvents st))"

text \<open>The cutoff of \<^verbatim>\<open>pruneOldData\<close>: \<open>now - maxAge\<close>, with the default of 90 days.\<close>

definition cutoffOf :: "int \<Rightarrow> int option \<Rightarrow> int" where
  "cutoffOf now maxAge = now - (case maxAge of None \<Rightarrow> 90 * 24 * 60 * 60 * 1000 | Some a \<Rightarrow> a)"

text \<open>The combined output/error text that \<^verbatim>\<open>isRateLimitError\<close> tests.\<close>

definition combinedText :: "PartRecord \<Rightarrow> string" where
  "combinedText part =
     orEmpty (stateField st_output part) @ '' '' @ orEmpty (stateField st_error part)"

text \<open>The hints that claim C9 lists.\<close>

definition claimedHints :: "string list" where
  "claimedHints =
     [''claude'', ''sonnet'', ''opus'', ''haiku'', ''gpt'', ''o1'', ''o3'', ''chatgpt'',
      ''gemini'', ''vertex'', ''openrouter'']"

section \<open>Concrete inputs\<close>

definition mkTokens :: "int \<Rightarrow> int \<Rightarrow> int \<Rightarrow> MessageTokens" where
  "mkTokens i out r =
     \<lparr> t_input = i, t_output = out, t_reasoning = r, cache_read = 0, cache_write = 0 \<rparr>"

definition mkMessage ::
  "string \<Rightarrow> int \<Rightarrow> string option \<Rightarrow> string option \<Rightarrow> real option \<Rightarrow> MessageTokens option \<Rightarrow>
   MessageRecord" where
  "mkMessage i created_at model provider c tk =
     \<lparr> m_id = i, m_sessionID = ''ses_1'', m_role = ''assistant'', m_created = created_at,
       m_completed = None, m_modelID = model, m_providerID = provider, m_mode = None,
       m_agent = None, m_cost = c, m_tokens = tk \<rparr>"

text \<open>The two messages of the end-to-end scenario, for a month starting at \<open>monthStart\<close>.\<close>

definition scenarioA :: "int \<Rightarrow> MessageRecord" where
  "scenarioA monthStart =
     mkMessage ''a'' (monthStart + 1000) None (Some ''openai'') (Some (1 / 100))
       (Some (mkTokens 10 20 0))"

definition scenarioB :: "int \<Rightarrow> MessageRecord" where
  "scenarioB monthStart =
     mkMessage ''b'' (monthStart - 1000) None (Some ''openai'') (Some (1 / 100))
       (Some (mkTokens 5 5 0))"

text \<open>A message without token data and without cost.\<close>

definition bareMessage :: "string \<Rightarrow> int \<Rightarrow> MessageRecord" where
  "bareMessage i created_at = mkMessage i created_at None None None None"

definition mkEvent :: "int \<Rightarrow> string \<Rightarrow> RateLimitEvent" where
  "mkEvent ts provider =
     \<lparr> e_timestamp = ts, e_providerID = provider, e_modelID = None,
       e_errorMessage = ''429'', e_partID = ''prt_1'' \<rparr>"

text \<open>The state after the first scenario message has been ingested.\<close>

definition stateWithA :: LiveState where
  "stateWithA = snd (addMessage 0 (createInitialState 0) (scenarioA 0))"

text \<open>The state after the end-to-end scenario: both messages ingested in one batch.\<close>

definition scenarioState :: "int \<Rightarrow> int \<Rightarrow> LiveState" where
  "scenarioState now monthStart =
     snd (addMessages now (createInitialState now) [scenarioA monthStart, scenarioB monthStart])"

text \<open>A ledger with one message at 5000 and one at 4999.\<close>

definition boundaryState :: LiveState where
  "boundaryState =
     snd (addMessages 0 (createInitialState 0) [bareMessage ''x'' 5000, bareMessage ''y'' 4999])"

text \<open>Three recent events of provider P, an old event of provider Q, a message of Q.\<close>

definition healthState :: LiveState where
  "healthState =
     run (createInitialState 0)
       [AddRateLimitEvent (mkEvent 999000 ''P''), AddRateLimitEvent (mkEvent 1000000 ''P''),
        AddRateLimitEvent (mkEvent 999500 ''P''), AddRateLimitEvent (mkEvent 100 ''Q''),
        AddMessage 5 (mkMessage ''q1'' 999000 None (Some ''Q'') None None)]"

text \<open>Three messages of one provider, one of them before the month; two budgets.\<close>

definition budgetState :: LiveState where
  "budgetState =
     (snd (addMessages 0 (createInitialState 0)
        [mkMessage ''m1'' 7000 None (Some ''anthropic'') (Some 20) (Some (mkTokens 100 50 0)),
         mkMessage ''m2'' 8000 None (Some ''anthropic'') (Some 5) (Some (mkTokens 30 20 0)),
         mkMessage ''m3'' 100 None (Some ''anthropic'') (Some 50) (Some (mkTokens 1 1 1))]))
     \<lparr> budgets :=
         [(''anthropic'', \<lparr> monthlyTokens = None, monthlyCost = Some 100 \<rparr>),
          (''openai'', \<lparr> monthlyTokens = Some 1000, monthlyCost = None \<rparr>)] \<rparr>"

text \<open>A budget whose monthly token ceiling is 0.\<close>

definition zeroBudgetState :: LiveState where
  "zeroBudgetState =
     (createInitialState 0)
     \<lparr> budgets := [(''openai'', \<lparr> monthlyTokens = Some 0, monthlyCost = None \<rparr>)] \<rparr>"

text \<open>
  Providers P and \<^verbatim>\<open>"unknown"\<close> throttled; models last seen 31 and 29 minutes before
  10000000; messages without model id and without provider id.
\<close>

definition modelState :: LiveState where
  "modelState =
     run (createInitialState 0)
       [AddRateLimitEvent (mkEvent 9900000 ''P''), AddRateLimitEvent (mkEvent 9900001 ''P''),
        AddRateLimitEvent (mkEvent 9900002 ''P''), AddRateLimitEvent (mkEvent 9900003 ''Q''),
        AddRateLimitEvent (mkEvent 9900004 ''unknown''),
        AddRateLimitEvent (mkEvent 9900005 ''unknown''),
        AddRateLimitEvent (mkEvent 9900006 ''unknown''),
        AddMessages 5
          [mkMessage ''a'' 8140000 (Some ''opus'') (Some ''P'') None None,
           mkMessage ''b'' 8140000 (Some ''gpt'') (Some ''Q'') None None,
           mkMessage ''c'' 8260000 (Some ''gemini'') (Some ''Q'') None None,
           mkMessage ''d'' 9990000 (Some ''opus'') (Some ''Q'') None None,
           mkMessage ''e'' 9999000 None None None None,
           mkMessage ''f'' 9999500 (Some ''haiku'') (Some []) None None]]"

text \<open>Messages at 4999 and 999000, events at 5000 and 4999.\<close>

definition pruneState :: LiveState where
  "pruneState =
     run (createInitialState 0)
       [AddMessage 1 (scenarioA 3999), AddMessage 2 (scenarioB 1000000),
        AddRateLimitEvent (mkEvent 5000 ''P''), AddRateLimitEvent (mkEvent 4999 ''P'')]"

text \<open>A sequence of calls with a duplicate, a message without token data and an event.\<close>

definition seriesCalls :: "Call list" where
  "seriesCalls =
     [AddMessage 1 (scenarioA 0),
      AddRateLimitEvent (mkEvent 50 ''P''),
      AddMessages 2
        [scenarioB 0, bareMessage ''n'' 30000,
         mkMessage ''c'' 59999 None None (Some 3) (Some (mkTokens 1 2 3)),
         scenarioA 0]]"

text \<open>A part with a state.\<close>

definition mkPart ::
  "string \<Rightarrow> string option \<Rightarrow> string option \<Rightarrow> string option \<Rightarrow> string option \<Rightarrow> PartRecord" where
  "mkPart i tool status out err =
     \<lparr> part_id = i, part_sessionID = ''ses_1'', part_messageID = ''msg_1'', part_type = ''tool'',
       part_tool = tool,
       part_state = Some \<lparr> st_status = status, st_output = out, st_error = err \<rparr> \<rparr>"

section \<open>Properties of the window statistics\<close>

lemma statsStep_adds:
  "statsStep acc m =
     \<lparr> totalTokens = totalTokens acc + msgTokens m,
       totalInput = totalInput acc + tokensOf t_input m,
       totalOutput = totalOutput acc + tokensOf t_output m,
       totalReasoning = totalReasoning acc + tokensOf t_reasoning m,
       totalCost = totalCost acc + msgCost m,
       messageCount = messageCount acc + (if hasTokens m then 1 else 0) \<rparr>"
  by (cases "m_tokens m")
     (simp_all add: statsStep_def msgTokens_def tokensOf_def msgCost_def hasTokens_def Let_def)

lemma foldl_statsStep:
  "foldl statsStep acc msgs =
     \<lparr> totalTokens = totalTokens acc + sum_list (map msgTokens msgs),
       totalInput = totalInput acc + sum_list (map (tokensOf t_input) msgs),
       totalOutput = totalOutput acc + sum_list (map (tokensOf t_output) msgs),
       totalReasoning = totalReasoning acc + sum_list (map (tokensOf t_reasoning) msgs),
       totalCost = totalCost acc + sum_list (map msgCost msgs),
       messageCount = messageCount acc + length (filter hasTokens msgs) \<rparr>"
proof (induction msgs arbitrary: acc)
  case Nil
  show ?case by simp
next
  case (Cons m ms)
  show ?case
    unfolding foldl_Cons Cons.IH
    by (simp add: statsStep_adds add.assoc)
qed

lemma computeWindowStats_sums:
  "computeWindowStats msgs =
     \<lparr> totalTokens = sum_list (map msgTokens msgs),
       totalInput = sum_list (map (tokensOf t_input) msgs),
       totalOutput = sum_list (map (tokensOf t_output) msgs),
       totalReasoning = sum_list (map (tokensOf t_reasoning) msgs),
       totalCost = sum_list (map msgCost msgs),
       messageCount = length (filter hasTokens msgs) \<rparr>"
  by (simp add: computeWindowStats_def foldl_statsStep emptyStats_def)

lemma msgTokens_split:
  "msgTokens m = tokensOf t_input m + tokensOf t_output m + tokensOf t_reasoning m"
  by (simp add: msgTokens_def tokensOf_def split: option.splits)

lemma sum_list_msgTokens:
  "sum_list (map msgTokens msgs) =
     sum_list (map (tokensOf t_input) msgs) + sum_list (map (tokensOf t_output) msgs)
       + sum_list (map (tokensOf t_reasoning) msgs)"
  by (induction msgs) (simp_all add: msgTokens_split)

lemma sum_list_filter_hasTokens:
  fixes f :: "MessageRecord \<Rightarrow> 'b::comm_monoid_add"
  assumes "\<And>m. \<not> hasTokens m \<Longrightarrow> f m = 0"
  shows "sum_list (map f (filter hasTokens msgs)) = sum_list (map f msgs)"
  by (induction msgs) (simp_all add: assms)

lemma computeWindowStats_filter:
  "computeWindowStats (filter hasTokens msgs) = computeWindowStats msgs"
proof -
  have "sum_list (map msgTokens (filter hasTokens msgs)) = sum_list (map msgTokens msgs)"
    by (rule sum_list_filter_hasTokens) (simp add: hasTokens_def msgTokens_def tokensOf_def)
  moreover have "\<And>f. sum_list (map (tokensOf f) (filter hasTokens msgs)) = sum_list (map (tokensOf f) msgs)"
    by (rule sum_list_filter_hasTokens) (simp add: hasTokens_def tokensOf_def)
  moreover have "sum_list (map msgCost (filter hasTokens msgs)) = sum_list (map msgCost msgs)"
    by (rule sum_list_filter_hasTokens) (simp add: hasTokens_def msgCost_def)
  ultimately show ?thesis
    by (simp add: computeWindowStats_sums)
qed

lemma sum_list_hasTokens_the:
  fixes g :: "MessageRecord \<Rightarrow> 'b::comm_monoid_add"
  assumes "\<And>m. hasTokens m \<Longrightarrow> f m = g m"
  shows "sum_list (map f (filter hasTokens msgs)) = sum_list (map g (filter hasTokens msgs))"
  by (induction msgs) (simp_all add: assms)

text \<open>
  Claim C3. For every list of messages, \<^verbatim>\<open>computeWindowStats\<close> returns a record with
  \<open>totalTokens = totalInput + totalOutput + totalReasoning\<close>; every field is the sum
  (the count, for \<open>messageCount\<close>) over the messages that carry token data only; a
  message without token data, wherever it stands in the list, changes no field; and a
  message with token data and no cost adds 0 to \<open>totalCost\<close>.
\<close>

theorem computeWindowStats_sum_invariant:
  "totalTokens (computeWindowStats msgs) =
     totalInput (computeWindowStats msgs) + totalOutput (computeWindowStats msgs)
       + totalReasoning (computeWindowStats msgs)
   \<and> computeWindowStats msgs =
       \<lparr> totalTokens =
           (\<Sum>m\<leftarrow>filter hasTokens msgs.
              t_input (the (m_tokens m)) + t_output (the (m_tokens m))
                + t_reasoning (the (m_tokens m))),
         totalInput = (\<Sum>m\<leftarrow>filter hasTokens msgs. t_input (the (m_tokens m))),
         totalOutput = (\<Sum>m\<leftarrow>filter hasTokens msgs. t_output (the (m_tokens m))),
         totalReasoning = (\<Sum>m\<leftarrow>filter hasTokens msgs. t_reasoning (the (m_tokens m))),
         totalCost = (\<Sum>m\<leftarrow>filter hasTokens msgs. costOrZero m),
         messageCount = length (filter hasTokens msgs) \<rparr>
   \<and> computeWindowStats (xs @ m\<lparr> m_tokens := None \<rparr> # ys) = computeWindowStats (xs @ ys)
   \<and> computeWindowStats (xs @ [m\<lparr> m_tokens := Some t, m_cost := None \<rparr>]) =
       (computeWindowStats xs)
         \<lparr> totalTokens := totalTokens (computeWindowStats xs) + (t_input t + t_output t + t_reasoning t),
           totalInput := totalInput (computeWindowStats xs) + t_input t,
           totalOutput := totalOutput (computeWindowStats xs) + t_output t,
           totalReasoning := totalReasoning (computeWindowStats xs) + t_reasoning t,
           totalCost := totalCost (computeWindowStats xs) + 0,
           messageCount := messageCount (computeWindowStats xs) + 1 \<rparr>"
proof (intro conjI)
  show "totalTokens (computeWindowStats msgs) =
     totalInput (computeWindowStats msgs) + totalOutput (computeWindowStats msgs)
       + totalReasoning (computeWindowStats msgs)"
    by (simp add: computeWindowStats_sums sum_list_msgTokens)
next
  have tk: "sum_list (map msgTokens (filter hasTokens msgs)) =
      (\<Sum>m\<leftarrow>filter hasTokens msgs.
              t_input (the (m_tokens m)) + t_output (the (m_tokens m))
                + t_reasoning (the (m_tokens m)))"
    by (rule sum_list_hasTokens_the) (auto simp: hasTokens_def msgTokens_def tokensOf_def)
  have fld: "\<And>f. sum_list (map (tokensOf f) (filter hasTokens msgs)) =
      (\<Sum>m\<leftarrow>filter hasTokens msgs. f (the (m_tokens m)))"
    by (rule sum_list_hasTokens_the) (auto simp: hasTokens_def tokensOf_def)
  have cst: "sum_list (map msgCost (filter hasTokens msgs)) =
      (\<Sum>m\<leftarrow>filter hasTokens msgs. costOrZero m)"
    by (rule sum_list_hasTokens_the) (auto simp: hasTokens_def msgCost_def)
  have "computeWindowStats msgs = computeWindowStats (filter hasTokens msgs)"
    by (simp add: computeWindowStats_filter)
  also have "\<dots> = \<lparr> totalTokens =
           (\<Sum>m\<leftarrow>filter hasTokens msgs.
              t_input (the (m_tokens m)) + t_output (the (m_tokens m))
                + t_reasoning (the (m_tokens m))),
         totalInput = (\<Sum>m\<leftarrow>filter hasTokens msgs. t_input (the (m_tokens m))),
         totalOutput = (\<Sum>m\<leftarrow>filter hasTokens msgs. t_output (the (m_tokens m))),
         totalReasoning = (\<Sum>m\<leftarrow>filter hasTokens msgs. t_reasoning (the (m_tokens m))),
         totalCost = (\<Sum>m\<leftarrow>filter hasTokens msgs. costOrZero m),
         messageCount = length (filter hasTokens msgs) \<rparr>"
    unfolding computeWindowStats_sums tk fld cst by simp
  finally show "computeWindowStats msgs = \<dots>" .
next
  show "computeWindowStats (xs @ m\<lparr> m_tokens := None \<rparr> # ys) = computeWindowStats (xs @ ys)"
    by (simp add: computeWindowStats_sums msgTokens_def tokensOf_def msgCost_def hasTokens_def)
next
  show "computeWindowStats (xs @ [m\<lparr> m_tokens := Some t, m_cost := None \<rparr>]) =
       (computeWindowStats xs)
         \<lparr> totalTokens := totalTokens (computeWindowStats xs) + (t_input t + t_output t + t_reasoning t),
           totalInput := totalInput (computeWindowStats xs) + t_input t,
           totalOutput := totalOutput (computeWindowStats xs) + t_output t,
           totalReasoning := totalReasoning (computeWindowStats xs) + t_reasoning t,
           totalCost := totalCost (computeWindowStats xs) + 0,
           messageCount := messageCount (computeWindowStats xs) + 1 \<rparr>"
    by (simp add: computeWindowStats_sums msgTokens_def tokensOf_def msgCost_def hasTokens_def
        costOrZero_def)
qed

lemmas input_defs = mkTokens_def mkMessage_def scenarioA_def scenarioB_def bareMessage_def mkEvent_def

theorem computeWindowStats_sum_invariant_witness:
  "computeWindowStats [scenarioA 0, bareMessage ''n'' 5, scenarioB 0] =
     \<lparr> totalTokens = 40, totalInput = 15, totalOutput = 25, totalReasoning = 0,
       totalCost = 2 / 100, messageCount = 2 \<rparr>
   \<and> computeWindowStats ([scenarioA 0] @ (scenarioB 7)\<lparr> m_tokens := None \<rparr> # []) =
       computeWindowStats ([scenarioA 0] @ [])"
  using computeWindowStats_sum_invariant
    [of "[scenarioA 0, bareMessage ''n'' 5, scenarioB 0]" "[scenarioA 0]" "scenarioB 7" "[]"]
  by (simp add: input_defs hasTokens_def costOrZero_def)

section \<open>Properties of the sort\<close>

lemma insort_cmp_key:
  fixes f :: "'a \<Rightarrow> int"
  shows "insort_cmp (\<lambda>a b. f a - f b) x ys = insort_key f x ys"
  by (induction ys) simp_all

lemma sort_cmp_key:
  fixes f :: "'a \<Rightarrow> int"
  shows "sort_cmp (\<lambda>a b. f a - f b) xs = sort_key f xs"
  by (induction xs) (simp_all add: sort_cmp_def sort_key_def insort_cmp_key)

lemma mset_insort_cmp: "mset (insort_cmp cmp x ys) = add_mset x (mset ys)"
  by (induction ys) simp_all

lemma mset_sort_cmp: "mset (sort_cmp cmp xs) = mset xs"
  by (induction xs) (simp_all add: sort_cmp_def mset_insort_cmp)

lemma set_sort_cmp: "set (sort_cmp cmp xs) = set xs"
  by (metis mset_sort_cmp set_mset_mset)

lemma length_sort_cmp: "length (sort_cmp cmp xs) = length xs"
  by (metis mset_sort_cmp size_mset)

lemma sorted_sort_cmp_key:
  fixes f :: "'a \<Rightarrow> int"
  shows "sorted (map f (sort_cmp (\<lambda>a b. f a - f b) xs))"
  by (simp add: sort_cmp_key)

section \<open>Properties of ingestion\<close>

lemma updateTimeSeries_fields:
  "messages (updateTimeSeries st m) = messages st"
  "messageIndex (updateTimeSeries st m) = messageIndex st"
  "rateLimitEvents (updateTimeSeries st m) = rateLimitEvents st"
  "lastUpdate (updateTimeSeries st m) = lastUpdate st"
  "budgets (updateTimeSeries st m) = budgets st"
  by (simp_all add: updateTimeSeries_def Let_def split: option.splits)

lemma addMessage_present:
  "messageIndex st (m_id m) \<noteq> None \<Longrightarrow> addMessage now st m = (False, st)"
  by (simp add: addMessage_def)

lemma addMessage_fresh:
  assumes "messageIndex st (m_id m) = None"
  shows "fst (addMessage now st m)"
    and "messages (snd (addMessage now st m)) =
           sort_cmp (\<lambda>a b. m_created a - m_created b) (messages st @ [m])"
    and "messageIndex (snd (addMessage now st m)) = (messageIndex st)(m_id m \<mapsto> m)"
    and "rateLimitEvents (snd (addMessage now st m)) = rateLimitEvents st"
    and "lastUpdate (snd (addMessage now st m)) = now"
  using assms by (simp_all add: addMessage_def updateTimeSeries_fields)

lemma addMessage_length:
  "length (messages (snd (addMessage now st m))) =
     length (messages st) + (if fst (addMessage now st m) then 1 else 0)"
  by (cases "messageIndex st (m_id m)")
     (simp_all add: addMessage_fresh length_sort_cmp addMessage_present)

lemma addMessage_dom:
  "dom (messageIndex (snd (addMessage now st m))) = insert (m_id m) (dom (messageIndex st))"
  by (cases "messageIndex st (m_id m)")
     (auto simp add: addMessage_fresh addMessage_present)

lemma addMessage_fst:
  "fst (addMessage now st m) = (m_id m \<notin> dom (messageIndex st))"
  by (cases "messageIndex st (m_id m)")
     (auto simp add: addMessage_fresh addMessage_present)

lemma addMessagesLoop_count:
  "fst (addMessagesLoop now st msgs added) =
     added + card (m_id ` set msgs - dom (messageIndex st))"
proof (induction msgs arbitrary: st added)
  case Nil
  show ?case by simp
next
  case (Cons m ms)
  obtain r st' where am: "addMessage now st m = (r, st')" by (cases "addMessage now st m")
  have dom': "dom (messageIndex st') = insert (m_id m) (dom (messageIndex st))"
    using addMessage_dom[of now st m] am by simp
  have r: "r = (m_id m \<notin> dom (messageIndex st))"
    using addMessage_fst[of now st m] am by simp
  have split: "m_id ` set (m # ms) - dom (messageIndex st) =
      (if r then insert (m_id m) (m_id ` set ms - dom (messageIndex st'))
       else m_id ` set ms - dom (messageIndex st'))"
    using r dom' by auto
  have notin: "m_id m \<notin> m_id ` set ms - dom (messageIndex st')"
    using dom' by simp
  show ?case
  proof (cases r)
    case True
    then show ?thesis
      using Cons.IH[of st' "added + 1"] am split notin by simp
  next
    case False
    then show ?thesis
      using Cons.IH[of st' added] am split by simp
  qed
qed

lemma addMessagesLoop_length:
  "length (messages (snd (addMessagesLoop now st msgs added))) + added =
     length (messages st) + fst (addMessagesLoop now st msgs added)"
proof (induction msgs arbitrary: st added)
  case Nil
  show ?case by simp
next
  case (Cons m ms)
  obtain r st' where am: "addMessage now st m = (r, st')" by (cases "addMessage now st m")
  have len: "length (messages st') = length (messages st) + (if r then 1 else 0)"
    using addMessage_length[of now st m] am by simp
  show ?case
  proof (cases r)
    case True
    then show ?thesis using Cons.IH[of st' "added + 1"] am len by simp
  next
    case False
    then show ?thesis using Cons.IH[of st' added] am len by simp
  qed
qed


text \<open>
  Claim C1, as amended. If the id of \<open>m\<close> is already in the identity index,
  \<^verbatim>\<open>addMessage\<close> returns false and the state it returns is the state it got (ledger,
  index, time series and \<open>lastUpdate\<close> included). If the id is not yet in the index, the
  first call adds the message, a second call with the same id returns false and changes
  nothing, and the ledger has grown by exactly 1 over the two calls. \<^verbatim>\<open>addMessages\<close>
  returns the number of messages by which the ledger has grown, which is the number of
  distinct ids of the list that were not in the index.
\<close>

theorem addMessage_idempotent:
  "(messageIndex st (m_id m) \<noteq> None \<longrightarrow> addMessage now st m = (False, st))
   \<and> (messageIndex st (m_id m) = None \<and> m_id m' = m_id m \<longrightarrow>
        fst (addMessage now st m)
        \<and> addMessage now' (snd (addMessage now st m)) m' = (False, snd (addMessage now st m))
        \<and> length (messages (snd (addMessage now' (snd (addMessage now st m)) m'))) =
            length (messages st) + 1)
   \<and> length (messages (snd (addMessages now st msgs))) =
        length (messages st) + fst (addMessages now st msgs)
   \<and> fst (addMessages now st msgs) = card (m_id ` set msgs - dom (messageIndex st))"
proof (intro conjI impI)
  assume "messageIndex st (m_id m) \<noteq> None"
  then show "addMessage now st m = (False, st)" by (rule addMessage_present)
next
  assume a: "messageIndex st (m_id m) = None \<and> m_id m' = m_id m"
  then show "fst (addMessage now st m)" by (simp add: addMessage_fresh)
  have "messageIndex (snd (addMessage now st m)) (m_id m') \<noteq> None"
    using a by (simp add: addMessage_fresh)
  then show second: "addMessage now' (snd (addMessage now st m)) m' = (False, snd (addMessage now st m))"
    by (rule addMessage_present)
  show "length (messages (snd (addMessage now' (snd (addMessage now st m)) m'))) =
            length (messages st) + 1"
    using a by (simp add: second addMessage_fresh length_sort_cmp)
next
  show "length (messages (snd (addMessages now st msgs))) =
        length (messages st) + fst (addMessages now st msgs)"
    using addMessagesLoop_length[of now st msgs 0] by (simp add: addMessages_def)
next
  show "fst (addMessages now st msgs) = card (m_id ` set msgs - dom (messageIndex st))"
    by (simp add: addMessages_def addMessagesLoop_count)
qed

lemmas ingest_defs = addMessage_def addMessages_def updateTimeSeries_def sort_cmp_def
  createInitialState_def costOrZero_def addRateLimitEvent_def


text \<open>
  Claim C1 as stated fails from a state that already holds the id: there the two calls
  add nothing, so the ledger does not grow by 1.
\<close>

theorem addMessage_twice_counterexample:
  "messageIndex stateWithA (m_id (scenarioA 0)) \<noteq> None
   \<and> length (messages (snd (addMessage 2 (snd (addMessage 1 stateWithA (scenarioA 0))) (scenarioA 0))))
       = length (messages stateWithA)
   \<and> length (messages (snd (addMessage 2 (snd (addMessage 1 stateWithA (scenarioA 0))) (scenarioA 0))))
       \<noteq> length (messages stateWithA) + 1"
  by (simp add: stateWithA_def ingest_defs input_defs)

text \<open>The amended claim C1 at concrete inputs.\<close>

theorem addMessage_idempotent_witness:
  "addMessage 5 stateWithA (scenarioA 0) = (False, stateWithA)
   \<and> fst (addMessage 0 (createInitialState 0) (scenarioA 0))
   \<and> addMessage 1 (snd (addMessage 0 (createInitialState 0) (scenarioA 0))) (scenarioA 0) =
       (False, snd (addMessage 0 (createInitialState 0) (scenarioA 0)))
   \<and> length (messages (snd (addMessage 1 (snd (addMessage 0 (createInitialState 0) (scenarioA 0))) (scenarioA 0)))) = 1
   \<and> fst (addMessages 5 stateWithA [scenarioB 0, scenarioA 0, scenarioB 0]) = 1
   \<and> length (messages (snd (addMessages 5 stateWithA [scenarioB 0, scenarioA 0, scenarioB 0]))) = 2"
proof -
  have present: "messageIndex stateWithA (m_id (scenarioA 0)) \<noteq> None"
    by (simp add: stateWithA_def ingest_defs input_defs)
  have fresh: "messageIndex (createInitialState 0) (m_id (scenarioA 0)) = None"
    by (simp add: createInitialState_def)
  have "m_id ` set [scenarioB 0, scenarioA 0, scenarioB 0] - dom (messageIndex stateWithA) = {''b''}"
    by (auto simp add: stateWithA_def ingest_defs input_defs)
  then have card: "card (m_id ` set [scenarioB 0, scenarioA 0, scenarioB 0] - dom (messageIndex stateWithA)) = 1"
    by simp
  have len: "length (messages stateWithA) = 1"
    by (simp add: stateWithA_def ingest_defs input_defs)
  have len0: "length (messages (createInitialState 0)) = 0"
    by (simp add: createInitialState_def)
  from addMessage_idempotent[where st = stateWithA and m = "scenarioA 0" and now = 5
        and m' = "scenarioA 0" and now' = 1 and msgs = "[scenarioB 0, scenarioA 0, scenarioB 0]"]
      present card len
  have one: "addMessage 5 stateWithA (scenarioA 0) = (False, stateWithA)
     \<and> fst (addMessages 5 stateWithA [scenarioB 0, scenarioA 0, scenarioB 0]) = 1
     \<and> length (messages (snd (addMessages 5 stateWithA [scenarioB 0, scenarioA 0, scenarioB 0]))) = 2"
    by simp
  from addMessage_idempotent[where st = "createInitialState 0" and m = "scenarioA 0" and now = 0
        and m' = "scenarioA 0" and now' = 1 and msgs = "[]"]
      fresh len0
  have two: "fst (addMessage 0 (createInitialState 0) (scenarioA 0))
   \<and> addMessage 1 (snd (addMessage 0 (createInitialState 0) (scenarioA 0))) (scenarioA 0) =
       (False, snd (addMessage 0 (createInitialState 0) (scenarioA 0)))
   \<and> length (messages (snd (addMessage 1 (snd (addMessage 0 (createInitialState 0) (scenarioA 0))) (scenarioA 0)))) = 1"
    by (simp add: ingest_defs input_defs)
  from one two show ?thesis by blast
qed

section \<open>The ledgers stay sorted\<close>

lemma addMessage_rateLimitEvents:
  "rateLimitEvents (snd (addMessage now st m)) = rateLimitEvents st"
  by (cases "messageIndex st (m_id m)") (simp_all add: addMessage_fresh addMessage_present)

lemma addMessage_sorted:
  "ledgersSorted st \<Longrightarrow> ledgersSorted (snd (addMessage now st m))"
  by (cases "messageIndex st (m_id m)")
     (simp_all add: ledgersSorted_def addMessage_fresh addMessage_present sorted_sort_cmp_key)

lemma addMessagesLoop_sorted:
  "ledgersSorted st \<Longrightarrow> ledgersSorted (snd (addMessagesLoop now st msgs added))"
proof (induction msgs arbitrary: st added)
  case Nil
  then show ?case by simp
next
  case (Cons m ms)
  obtain r st' where am: "addMessage now st m = (r, st')" by (cases "addMessage now st m")
  have "ledgersSorted st'" using addMessage_sorted[OF Cons.prems, of now m] am by simp
  then show ?case using Cons.IH am by (cases r) simp_all
qed

lemma addRateLimitEvent_sorted:
  "ledgersSorted st \<Longrightarrow> ledgersSorted (addRateLimitEvent st e)"
  by (simp add: ledgersSorted_def addRateLimitEvent_def sorted_sort_cmp_key)

lemma call_sorted: "ledgersSorted st \<Longrightarrow> ledgersSorted (call st c)"
  by (cases c) (simp_all add: addMessage_sorted addMessages_def addMessagesLoop_sorted
      addRateLimitEvent_sorted)

lemma run_sorted: "ledgersSorted st \<Longrightarrow> ledgersSorted (run st calls)"
  unfolding run_def by (induction calls arbitrary: st) (simp_all add: call_sorted)

lemma initial_sorted: "ledgersSorted (createInitialState t0)"
  by (simp add: ledgersSorted_def createInitialState_def)

text \<open>
  Claim C2. After any sequence of \<^verbatim>\<open>addMessage\<close>, \<^verbatim>\<open>addMessages\<close> and
  \<^verbatim>\<open>addRateLimitEvent\<close> calls from the initial state, in any order of timestamps, the
  message ledger is sorted ascending by \<^verbatim>\<open>time.created\<close> and the rate-limit ledger is
  sorted ascending by \<^verbatim>\<open>timestamp\<close>; so is the state after every prefix of the
  sequence, that is, after every single mutation.
\<close>

theorem ledgers_sorted_after_every_call:
  "sorted (map m_created (messages (run (createInitialState t0) calls)))
   \<and> sorted (map e_timestamp (rateLimitEvents (run (createInitialState t0) calls)))
   \<and> (\<forall>n. sorted (map m_created (messages (run (createInitialState t0) (take n calls))))
          \<and> sorted (map e_timestamp (rateLimitEvents (run (createInitialState t0) (take n calls)))))"
  using run_sorted[OF initial_sorted] by (simp add: ledgersSorted_def)


text \<open>Claim C2 on messages and events that arrive out of order.\<close>

theorem ledgers_sorted_witness:
  "map m_created (messages (run (createInitialState 0)
       [AddMessage 1 (scenarioA 5000), AddRateLimitEvent (mkEvent 9 ''p''),
        AddMessage 2 (scenarioB 5000), AddRateLimitEvent (mkEvent 3 ''q'')])) = [4000, 6000]
   \<and> map e_timestamp (rateLimitEvents (run (createInitialState 0)
       [AddMessage 1 (scenarioA 5000), AddRateLimitEvent (mkEvent 9 ''p''),
        AddMessage 2 (scenarioB 5000), AddRateLimitEvent (mkEvent 3 ''q'')])) = [3, 9]
   \<and> sorted (map m_created (messages (run (createInitialState 0)
       [AddMessage 1 (scenarioA 5000), AddRateLimitEvent (mkEvent 9 ''p''),
        AddMessage 2 (scenarioB 5000), AddRateLimitEvent (mkEvent 3 ''q'')])))"
  using ledgers_sorted_after_every_call[of 0
       "[AddMessage 1 (scenarioA 5000), AddRateLimitEvent (mkEvent 9 ''p''),
        AddMessage 2 (scenarioB 5000), AddRateLimitEvent (mkEvent 3 ''q'')]"]
  by (simp add: run_def ingest_defs input_defs)

section \<open>Month to date\<close>

lemma getMessagesMTD_mem:
  "m \<in> set (getMessagesMTD monthStart st) \<longleftrightarrow> m \<in> set (messages st) \<and> m_created m \<ge> monthStart"
  by (auto simp add: getMessagesMTD_def)


lemma scenario_messages:
  "messages (scenarioState now ms) = [scenarioB ms, scenarioA ms]"
  by (simp add: scenarioState_def addMessages_def addMessage_def updateTimeSeries_fields
      sort_cmp_def createInitialState_def input_defs)

text \<open>
  Claim C4. The month-to-date subset is the ledger filtered by
  \<open>time.created \<ge> monthStart\<close>, and the month-to-date statistics fold that subset,
  while the all-time statistics fold the whole ledger. A message of the ledger created
  at exactly the month start is in the subset; a message created one millisecond earlier
  is not. After the two scenario messages have been ingested, at \<open>monthStart + 1000\<close>
  with 10+20+0 tokens and at \<open>monthStart - 1000\<close> with 5+5+0 tokens, the month-to-date
  statistics have 30 tokens and 1 message and the all-time statistics 40 tokens and 2
  messages, for every month start.
\<close>

theorem month_to_date_boundary:
  "getMessagesMTD monthStart st = filter (\<lambda>m. m_created m \<ge> monthStart) (messages st)
   \<and> getMTDStats monthStart st = computeWindowStats (filter (\<lambda>m. m_created m \<ge> monthStart) (messages st))
   \<and> getAllTimeStats st = computeWindowStats (messages st)
   \<and> (m \<in> set (messages st) \<and> m_created m = monthStart \<longrightarrow> m \<in> set (getMessagesMTD monthStart st))
   \<and> (m_created m = monthStart - 1 \<longrightarrow> m \<notin> set (getMessagesMTD monthStart st))
   \<and> totalTokens (getMTDStats monthStart (scenarioState now monthStart)) = 30
   \<and> messageCount (getMTDStats monthStart (scenarioState now monthStart)) = 1
   \<and> totalTokens (getAllTimeStats (scenarioState now monthStart)) = 40
   \<and> messageCount (getAllTimeStats (scenarioState now monthStart)) = 2"
  by (simp add: getMessagesMTD_def getMTDStats_def getAllTimeStats_def scenario_messages
      computeWindowStats_sums input_defs msgTokens_def tokensOf_def hasTokens_def)



text \<open>Claim C4 with a month starting at 5000: one message at 5000, one at 4999.\<close>

theorem month_to_date_boundary_witness:
  "bareMessage ''x'' 5000 \<in> set (messages boundaryState)
   \<and> bareMessage ''x'' 5000 \<in> set (getMessagesMTD 5000 boundaryState)
   \<and> bareMessage ''y'' 4999 \<in> set (messages boundaryState)
   \<and> bareMessage ''y'' 4999 \<notin> set (getMessagesMTD 5000 boundaryState)
   \<and> totalTokens (getMTDStats 5000 (scenarioState 0 5000)) = 30
   \<and> messageCount (getAllTimeStats (scenarioState 0 5000)) = 2"
proof -
  have msgs: "messages boundaryState = [bareMessage ''y'' 4999, bareMessage ''x'' 5000]"
    by (simp add: boundaryState_def ingest_defs input_defs)
  have x: "bareMessage ''x'' 5000 \<in> set (messages boundaryState) \<and> m_created (bareMessage ''x'' 5000) = 5000"
    by (simp add: msgs input_defs)
  have y: "m_created (bareMessage ''y'' 4999) = 5000 - 1"
    by (simp add: input_defs)
  show ?thesis
    using month_to_date_boundary[where m = "bareMessage ''x'' 5000" and st = boundaryState
        and monthStart = 5000 and now = 0]
      month_to_date_boundary[where m = "bareMessage ''y'' 4999" and st = boundaryState
        and monthStart = 5000 and now = 0]
      x y msgs
    by (auto simp add: input_defs)
qed

section \<open>Properties of grouping\<close>

lemma map_fst_groupPush:
  "map fst (groupPush k v g) = setAdd (map fst g) k"
  by (induction k v g rule: groupPush.induct) (auto simp add: setAdd_def)

lemma distinct_setAdd: "distinct s \<Longrightarrow> distinct (setAdd s x)"
  by (simp add: setAdd_def)

lemma set_setAdd: "set (setAdd s x) = insert x (set s)"
  by (auto simp add: setAdd_def)

lemma getOrEmpty_groupPush:
  "getOrEmpty (groupPush k v g) k' =
     (if k' = k then getOrEmpty g k @ [v] else getOrEmpty g k')"
  by (induction g) (auto simp add: getOrEmpty_def)

lemma foldl_groupPush_keys:
  "map fst (foldl (\<lambda>g x. groupPush (key x) x g) g0 xs) = foldl setAdd (map fst g0) (map key xs)"
  by (induction xs arbitrary: g0) (simp_all add: map_fst_groupPush)

lemma foldl_groupPush_get:
  "getOrEmpty (foldl (\<lambda>g x. groupPush (key x) x g) g0 xs) k =
     getOrEmpty g0 k @ filter (\<lambda>x. key x = k) xs"
  by (induction xs arbitrary: g0) (simp_all add: getOrEmpty_groupPush)

lemma set_foldl_setAdd: "set (foldl setAdd s xs) = set s \<union> set xs"
  by (induction xs arbitrary: s) (auto simp add: set_setAdd)

lemma distinct_foldl_setAdd: "distinct s \<Longrightarrow> distinct (foldl setAdd s xs)"
  by (induction xs arbitrary: s) (simp_all add: distinct_setAdd)

lemma set_newSet: "set (newSet xs) = set xs"
  by (simp add: newSet_def set_foldl_setAdd)

lemma distinct_newSet: "distinct (newSet xs)"
  by (simp add: newSet_def distinct_foldl_setAdd)

lemma groupBy_keys: "map fst (groupBy key xs) = newSet (map key xs)"
  by (simp add: groupBy_def newSet_def foldl_groupPush_keys)

lemma groupBy_get: "getOrEmpty (groupBy key xs) k = filter (\<lambda>x. key x = k) xs"
proof -
  have "getOrEmpty ([] :: (string \<times> 'a list) list) k = []" by (simp add: getOrEmpty_def)
  then show ?thesis by (simp add: groupBy_def foldl_groupPush_get)
qed

lemma groupBy_distinct: "distinct (map fst (groupBy key xs))"
  by (simp add: groupBy_keys distinct_newSet)

lemma groupBy_entry:
  assumes "(k, vs) \<in> set (groupBy key xs)"
  shows "vs = filter (\<lambda>x. key x = k) xs" and "k \<in> key ` set xs" and "vs \<noteq> []"
proof -
  have "map_of (groupBy key xs) k = Some vs"
    using assms by (simp add: groupBy_distinct)
  then show vs: "vs = filter (\<lambda>x. key x = k) xs"
    using groupBy_get[of key xs k] by (simp add: getOrEmpty_def)
  have "k \<in> set (map fst (groupBy key xs))" using assms by force
  then show k: "k \<in> key ` set xs" by (simp add: groupBy_keys set_newSet)
  then show "vs \<noteq> []" using vs by (auto simp add: filter_empty_conv)
qed

lemma Math_max_Max: "xs \<noteq> [] \<Longrightarrow> Math_max xs = Some (Max (set xs))"
proof (cases xs)
  case Nil
  assume "xs \<noteq> []" with Nil show ?thesis by simp
next
  case (Cons x ys)
  have "foldl max x ys = fold max ys x"
    by (simp add: foldl_conv_fold max.commute)
  moreover have "Max (set (x # ys)) = fold max ys x"
    by (rule Max.set_eq_fold)
  ultimately show ?thesis using Cons by simp
qed

section \<open>Properties of the provider statistics\<close>

lemma providerRateLimits_eq:
  "getOrEmpty (groupBy e_providerID (getRateLimitsInWindow now st (5 * 60 * 1000))) p =
     filter (\<lambda>e. e_timestamp e \<ge> now - 5 * 60 * 1000 \<and> e_providerID e = p) (rateLimitEvents st)"
  by (simp add: groupBy_get getRateLimitsInWindow_def Let_def conj_commute)

lemma computeProviderStats_set:
  "set (computeProviderStats now st msgs) =
     providerEntry now st (groupBy msgProvider msgs)
         (groupBy e_providerID (getRateLimitsInWindow now st (5 * 60 * 1000)))
       ` (msgProvider ` set msgs
          \<union> e_providerID ` set (getRateLimitsInWindow now st (5 * 60 * 1000))
          \<union> fst ` set (budgets st))"
  by (simp add: computeProviderStats_def Let_def set_sort_cmp set_newSet groupBy_keys image_Un
      Un_assoc)

lemma providerEntry_id: "ps_providerID (providerEntry now st g rl p) = p"
  by (simp add: providerEntry_def Let_def)

lemma computeProviderStats_distinct:
  "distinct (map ps_providerID (computeProviderStats now st msgs))"
proof -
  let ?ps = "newSet (map fst (groupBy msgProvider msgs)
        @ map fst (groupBy e_providerID (getRateLimitsInWindow now st (5 * 60 * 1000)))
        @ map fst (budgets st))"
  let ?entry = "providerEntry now st (groupBy msgProvider msgs)
         (groupBy e_providerID (getRateLimitsInWindow now st (5 * 60 * 1000)))"
  have a: "mset (computeProviderStats now st msgs) = mset (map ?entry ?ps)"
    by (simp add: computeProviderStats_def Let_def mset_sort_cmp)
  have "mset (map ps_providerID (computeProviderStats now st msgs)) =
        image_mset ps_providerID (mset (computeProviderStats now st msgs))"
    by simp
  also have "\<dots> = mset (map ps_providerID (map ?entry ?ps))"
    by (simp only: a mset_map)
  also have "map ps_providerID (map ?entry ?ps) = ?ps"
    by (simp add: providerEntry_id comp_def)
  finally show ?thesis
    using distinct_newSet mset_eq_imp_distinct_iff by blast
qed

lemma providerEntry_health:
  "ps_health (providerEntry now st (groupBy msgProvider msgs)
       (groupBy e_providerID (getRateLimitsInWindow now st (5 * 60 * 1000))) p) =
     \<lparr> ph_status = computeHealthStatus now (count5m now st p)
          (if count5m now st p > 0
           then Math_max (map e_timestamp
             (filter (\<lambda>e. e_timestamp e \<ge> now - 5 * 60 * 1000 \<and> e_providerID e = p) (rateLimitEvents st)))
           else None),
       rateLimitCount5m = count5m now st p,
       lastRateLimit =
          (if count5m now st p > 0
           then Math_max (map e_timestamp
             (filter (\<lambda>e. e_timestamp e \<ge> now - 5 * 60 * 1000 \<and> e_providerID e = p) (rateLimitEvents st)))
           else None) \<rparr>"
  unfolding providerEntry_def Let_def providerRateLimits_eq count5m_def by simp

text \<open>
  Claim C5. Every entry of the \<^verbatim>\<open>computeProviderStats\<close> output carries, as
  \<open>rateLimitCount5m\<close>, the number of that provider's rate-limit events with
  \<open>timestamp \<ge> now - 5 minutes\<close>, and its status follows this branch order: throttled
  when the count is at least 3, else warn when it is at least 1, else warn when a last
  rate-limit timestamp exists and lies within the last 5 minutes, else ok. With a count of
  0 the entry has no last rate-limit timestamp and its status is ok. The function
  \<^verbatim>\<open>computeHealthStatus\<close> itself follows the same branch order for every count and
  every last timestamp other than 0 (which JavaScript treats as absent).
\<close>

theorem provider_health_status:
  "(\<forall>r \<in> set (computeProviderStats now st msgs).
      rateLimitCount5m (ps_health r) = count5m now st (ps_providerID r)
      \<and> ph_status (ps_health r) =
          (if count5m now st (ps_providerID r) \<ge> 3 then Throttled
           else if count5m now st (ps_providerID r) \<ge> 1 then Warn
           else if (\<exists>l. lastRateLimit (ps_health r) = Some l \<and> now - l < 5 * 60 * 1000) then Warn
           else Ok)
      \<and> (count5m now st (ps_providerID r) = 0 \<longrightarrow>
            lastRateLimit (ps_health r) = None \<and> ph_status (ps_health r) = Ok))
   \<and> (lastRL \<noteq> Some 0 \<longrightarrow>
        computeHealthStatus now c lastRL =
          (if c \<ge> 3 then Throttled
           else if c \<ge> 1 then Warn
           else if (\<exists>l. lastRL = Some l \<and> now - l < 5 * 60 * 1000) then Warn
           else Ok))"
proof (intro conjI ballI impI)
  fix r assume "r \<in> set (computeProviderStats now st msgs)"
  then obtain p where r: "r = providerEntry now st (groupBy msgProvider msgs)
         (groupBy e_providerID (getRateLimitsInWindow now st (5 * 60 * 1000))) p"
    unfolding computeProviderStats_set by blast
  have id: "ps_providerID r = p" by (simp add: r providerEntry_id)
  show "rateLimitCount5m (ps_health r) = count5m now st (ps_providerID r)"
    unfolding id unfolding r providerEntry_health by simp
  show "ph_status (ps_health r) =
          (if count5m now st (ps_providerID r) \<ge> 3 then Throttled
           else if count5m now st (ps_providerID r) \<ge> 1 then Warn
           else if (\<exists>l. lastRateLimit (ps_health r) = Some l \<and> now - l < 5 * 60 * 1000) then Warn
           else Ok)"
    unfolding id unfolding r providerEntry_health by (simp add: computeHealthStatus_def)
  assume "count5m now st (ps_providerID r) = 0"
  then show "lastRateLimit (ps_health r) = None" "ph_status (ps_health r) = Ok"
    unfolding id unfolding r providerEntry_health by (simp_all add: computeHealthStatus_def)
next
  assume "lastRL \<noteq> Some 0"
  then show "computeHealthStatus now c lastRL =
          (if c \<ge> 3 then Throttled
           else if c \<ge> 1 then Warn
           else if (\<exists>l. lastRL = Some l \<and> now - l < 5 * 60 * 1000) then Warn
           else Ok)"
    by (cases lastRL) (auto simp add: computeHealthStatus_def)
qed

lemmas stats_defs = computeProviderStats_def getRateLimitsInWindow_def groupBy_def
  providerEntry_def getOrEmpty_def newSet_def setAdd_def msgProvider_def orUnknown_def
  computeWindowStats_def statsStep_def emptyStats_def computeHealthStatus_def truthy_def

text \<open>
  Claim C5 at a concrete state: three events of provider P within the last 5 minutes, an
  old event of provider Q, and one message of Q.
\<close>

theorem provider_health_status_witness:
  "map (\<lambda>r. (ps_providerID r, ph_status (ps_health r), rateLimitCount5m (ps_health r),
              lastRateLimit (ps_health r)))
     (computeProviderStats 1000000 healthState (messages healthState)) =
     [(''Q'', Ok, 0, None), (''P'', Throttled, 3, Some 1000000)]
   \<and> count5m 1000000 healthState ''P'' = 3
   \<and> count5m 1000000 healthState ''Q'' = 0"
  using provider_health_status[where now = 1000000 and st = healthState
      and msgs = "messages healthState" and c = 0 and lastRL = None]
  by (simp add: healthState_def run_def ingest_defs input_defs stats_defs count5m_def)

lemma providerEntry_stats:
  "totalTokens (providerEntry now st (groupBy msgProvider msgs) rl p) =
     totalTokens (computeWindowStats (filter (\<lambda>m. msgProvider m = p) msgs))"
  "totalCost (providerEntry now st (groupBy msgProvider msgs) rl p) =
     totalCost (computeWindowStats (filter (\<lambda>m. msgProvider m = p) msgs))"
  by (simp_all add: providerEntry_def Let_def groupBy_get)

lemma providerEntry_budget:
  "budgetPercent (providerEntry now st g rl p) =
     map_option (\<lambda>c. real_of_int (totalTokens (providerEntry now st g rl p)) / real_of_int c * 100)
       (truthy (case map_of (budgets st) p of None \<Rightarrow> None | Some b \<Rightarrow> monthlyTokens b))"
  "budgetCostPercent (providerEntry now st g rl p) =
     map_option (\<lambda>c. totalCost (providerEntry now st g rl p) / c * 100)
       (truthy (case map_of (budgets st) p of None \<Rightarrow> None | Some b \<Rightarrow> monthlyCost b))"
  by (simp_all add: providerEntry_def Let_def)

text \<open>
  Claim C7, as amended. The provider ids of the \<^verbatim>\<open>computeProviderStats\<close> result are
  exactly the union of the providers of the messages, the providers of the rate-limit
  events of the trailing 5-minute window, and the keys of the budgets configuration, each
  once. For every entry whose provider has a non-zero monthly token ceiling,
  \<open>budgetPercent = totalTokens / ceiling * 100\<close>; for every entry whose provider has a
  non-zero monthly cost ceiling, \<open>budgetCostPercent = totalCost / ceiling * 100\<close>; the two
  are independent. A ceiling that is absent or 0 leaves the percentage undefined.
\<close>

theorem provider_keys_and_budget_percent:
  "set (map ps_providerID (computeProviderStats now st msgs)) =
      msgProvider ` set msgs
      \<union> e_providerID ` {e \<in> set (rateLimitEvents st). e_timestamp e \<ge> now - 5 * 60 * 1000}
      \<union> fst ` set (budgets st)
   \<and> distinct (map ps_providerID (computeProviderStats now st msgs))
   \<and> (\<forall>r \<in> set (computeProviderStats now st msgs).
        totalTokens r =
          totalTokens (computeWindowStats (filter (\<lambda>m. msgProvider m = ps_providerID r) msgs))
        \<and> totalCost r =
          totalCost (computeWindowStats (filter (\<lambda>m. msgProvider m = ps_providerID r) msgs))
        \<and> (\<forall>b c. map_of (budgets st) (ps_providerID r) = Some b \<and> monthlyTokens b = Some c
                  \<and> c \<noteq> 0 \<longrightarrow>
              budgetPercent r = Some (real_of_int (totalTokens r) / real_of_int c * 100))
        \<and> (\<forall>b c. map_of (budgets st) (ps_providerID r) = Some b \<and> monthlyCost b = Some c
                  \<and> c \<noteq> 0 \<longrightarrow>
              budgetCostPercent r = Some (totalCost r / c * 100))
        \<and> (\<forall>b. map_of (budgets st) (ps_providerID r) = Some b
                  \<and> (monthlyTokens b = None \<or> monthlyTokens b = Some 0) \<longrightarrow>
              budgetPercent r = None)
        \<and> (\<forall>b. map_of (budgets st) (ps_providerID r) = Some b
                  \<and> (monthlyCost b = None \<or> monthlyCost b = Some 0) \<longrightarrow>
              budgetCostPercent r = None))"
proof (intro conjI ballI allI impI)
  have "set (getRateLimitsInWindow now st (5 * 60 * 1000)) =
      {e \<in> set (rateLimitEvents st). e_timestamp e \<ge> now - 5 * 60 * 1000}"
    by (auto simp add: getRateLimitsInWindow_def)
  then show "set (map ps_providerID (computeProviderStats now st msgs)) =
      msgProvider ` set msgs
      \<union> e_providerID ` {e \<in> set (rateLimitEvents st). e_timestamp e \<ge> now - 5 * 60 * 1000}
      \<union> fst ` set (budgets st)"
    by (simp add: computeProviderStats_set image_image providerEntry_id)
next
  show "distinct (map ps_providerID (computeProviderStats now st msgs))"
    by (rule computeProviderStats_distinct)
next
  fix r assume "r \<in> set (computeProviderStats now st msgs)"
  then obtain p where r: "r = providerEntry now st (groupBy msgProvider msgs)
         (groupBy e_providerID (getRateLimitsInWindow now st (5 * 60 * 1000))) p"
    unfolding computeProviderStats_set by blast
  have id: "ps_providerID r = p" by (simp add: r providerEntry_id)
  show "totalTokens r =
          totalTokens (computeWindowStats (filter (\<lambda>m. msgProvider m = ps_providerID r) msgs))"
    unfolding id unfolding r by (rule providerEntry_stats)
  show "totalCost r =
          totalCost (computeWindowStats (filter (\<lambda>m. msgProvider m = ps_providerID r) msgs))"
    unfolding id unfolding r by (rule providerEntry_stats)
  {
    fix b c
    assume "map_of (budgets st) (ps_providerID r) = Some b \<and> monthlyTokens b = Some c \<and> c \<noteq> 0"
    then show "budgetPercent r = Some (real_of_int (totalTokens r) / real_of_int c * 100)"
      unfolding id unfolding r providerEntry_budget by (simp add: truthy_def)
  }
  {
    fix b c
    assume "map_of (budgets st) (ps_providerID r) = Some b \<and> monthlyCost b = Some c \<and> c \<noteq> 0"
    then show "budgetCostPercent r = Some (totalCost r / c * 100)"
      unfolding id unfolding r providerEntry_budget by (simp add: truthy_def)
  }
  {
    fix b
    assume "map_of (budgets st) (ps_providerID r) = Some b
                  \<and> (monthlyTokens b = None \<or> monthlyTokens b = Some 0)"
    then show "budgetPercent r = None"
      unfolding id unfolding r providerEntry_budget by (auto simp add: truthy_def)
  }
  {
    fix b
    assume "map_of (budgets st) (ps_providerID r) = Some b
                  \<and> (monthlyCost b = None \<or> monthlyCost b = Some 0)"
    then show "budgetCostPercent r = None"
      unfolding id unfolding r providerEntry_budget by (auto simp add: truthy_def)
  }
qed

text \<open>
  Claim C7 as stated fails for a configured ceiling of 0: the guard
  \<^verbatim>\<open>if (budget?.monthlyTokens)\<close> skips it, and \<open>budgetPercent\<close> stays undefined.
\<close>

theorem zero_ceiling_counterexample:
  "map_of (budgets zeroBudgetState) ''openai'' = Some \<lparr> monthlyTokens = Some 0, monthlyCost = None \<rparr>
   \<and> map (\<lambda>r. (ps_providerID r, totalTokens r, budgetPercent r))
        (computeProviderStats 0 zeroBudgetState []) = [(''openai'', 0, None)]
   \<and> map budgetPercent (computeProviderStats 0 zeroBudgetState []) \<noteq>
        [Some (real_of_int 0 / real_of_int 0 * 100)]"
  by (simp add: zeroBudgetState_def createInitialState_def stats_defs sort_cmp_def)

text \<open>
  The amended claim C7 on the example of the specification: a monthly cost ceiling of 100
  and a month-to-date cost of 25 give 25 percent; a provider with a budget and no
  message is listed.
\<close>

theorem provider_keys_and_budget_percent_witness:
  "map (\<lambda>r. (ps_providerID r, totalCost r, budgetCostPercent r, totalTokens r, budgetPercent r))
     (getProviderStatsMTD 9000 5000 budgetState) =
     [(''anthropic'', 25, Some 25, 200, None), (''openai'', 0, None, 0, Some 0)]"
  using provider_keys_and_budget_percent[where now = 9000 and st = budgetState
      and msgs = "getMessagesMTD 5000 budgetState"]
  by (simp add: budgetState_def getProviderStatsMTD_def getMessagesMTD_def
      ingest_defs input_defs stats_defs)

section \<open>Properties of the model statistics\<close>

lemma set_foldl_throttled:
  "set (foldl (\<lambda>s event. if P event then setAdd s (f event) else s) s0 xs) =
     set s0 \<union> f ` {e \<in> set xs. P e}"
  by (induction xs arbitrary: s0) (auto simp add: set_setAdd)

lemma throttledProviders_iff:
  "p \<in> set (throttledProviders rl) \<longleftrightarrow> 3 \<le> length (filter (\<lambda>e. e_providerID e = p) rl)"
proof -
  have "p \<in> set (throttledProviders rl) \<longleftrightarrow>
      (\<exists>e \<in> set rl. e_providerID e = p \<and> 3 \<le> length (filter (\<lambda>e'. e_providerID e' = p) rl))"
    unfolding throttledProviders_def set_foldl_throttled by auto
  also have "\<dots> \<longleftrightarrow> 3 \<le> length (filter (\<lambda>e. e_providerID e = p) rl)"
  proof
    assume "\<exists>e \<in> set rl. e_providerID e = p \<and> 3 \<le> length (filter (\<lambda>e'. e_providerID e' = p) rl)"
    then show "3 \<le> length (filter (\<lambda>e. e_providerID e = p) rl)" by blast
  next
    assume a: "3 \<le> length (filter (\<lambda>e. e_providerID e = p) rl)"
    then have "filter (\<lambda>e. e_providerID e = p) rl \<noteq> []" by auto
    then obtain e where "e \<in> set (filter (\<lambda>e. e_providerID e = p) rl)"
      by (meson last_in_set)
    then show "\<exists>e \<in> set rl. e_providerID e = p \<and> 3 \<le> length (filter (\<lambda>e'. e_providerID e' = p) rl)"
      using a by auto
  qed
  finally show ?thesis .
qed

lemma throttled_count5m:
  "p \<in> set (throttledProviders (getRateLimitsInWindow now st (5 * 60 * 1000))) \<longleftrightarrow>
     3 \<le> count5m now st p"
  by (simp add: throttledProviders_iff count5m_def getRateLimitsInWindow_def Let_def conj_commute)

lemma computeModelStats_set:
  "set (computeModelStats lc now st msgs mode) =
     modelEntry now (throttledProviders (getRateLimitsInWindow now st (5 * 60 * 1000)))
       (computeWindowStats msgs) ` set (groupBy msgModel msgs)"
  by (cases mode) (simp_all add: computeModelStats_def Let_def set_sort_cmp)

text \<open>
  Claim C6. Every entry of the \<^verbatim>\<open>computeModelStats\<close> output stands for a non-empty
  group: the messages whose model id, \<^verbatim>\<open>"unknown"\<close> when absent or empty, is the
  entry's. Its provider id is that of the first message of the group, \<^verbatim>\<open>"unknown"\<close>
  when absent or empty; its \<open>lastSeen\<close> is the maximum of \<open>time.created\<close> over the
  group; and its status is error when that provider has at least 3 rate-limit events in
  the trailing 5-minute window, else stale when \<open>now - lastSeen > 30 minutes\<close>, else
  active: a throttled provider takes precedence over staleness.
\<close>

theorem model_health_status:
  "\<forall>r \<in> set (computeModelStats lc now st msgs mode).
     (let grp = filter
            (\<lambda>m. (case m_modelID m of None \<Rightarrow> ''unknown''
                    | Some k \<Rightarrow> (if k = [] then ''unknown'' else k)) = ms_modelID r) msgs
      in grp \<noteq> []
      \<and> ms_providerID r =
           (case m_providerID (hd grp) of None \<Rightarrow> ''unknown''
            | Some p \<Rightarrow> (if p = [] then ''unknown'' else p))
      \<and> ms_lastSeen r = Some (Max (m_created ` set grp))
      \<and> mh_lastSeen (ms_health r) = ms_lastSeen r
      \<and> providerThrottled (ms_health r) = (3 \<le> count5m now st (ms_providerID r))
      \<and> mh_status (ms_health r) =
           (if 3 \<le> count5m now st (ms_providerID r) then Error
            else if now - Max (m_created ` set grp) > 30 * 60 * 1000 then Stale
            else Active))"
proof
  fix r assume "r \<in> set (computeModelStats lc now st msgs mode)"
  then obtain k g where kg: "(k, g) \<in> set (groupBy msgModel msgs)"
    and r: "r = modelEntry now (throttledProviders (getRateLimitsInWindow now st (5 * 60 * 1000)))
       (computeWindowStats msgs) (k, g)"
    unfolding computeModelStats_set by auto
  have g: "g = filter (\<lambda>m. msgModel m = k) msgs" and ne: "g \<noteq> []"
    using groupBy_entry[OF kg] by simp_all
  have key: "msgModel = (\<lambda>m. case m_modelID m of None \<Rightarrow> ''unknown''
                    | Some k \<Rightarrow> (if k = [] then ''unknown'' else k))"
    by (rule ext) (simp add: msgModel_def orUnknown_def)
  have id: "ms_modelID r = k" by (simp add: r modelEntry_def Let_def)
  obtain m ms where gm: "g = m # ms" using ne by (cases g) auto
  have prov: "ms_providerID r =
      (case m_providerID (hd g) of None \<Rightarrow> ''unknown''
       | Some p \<Rightarrow> (if p = [] then ''unknown'' else p))"
    by (simp add: r modelEntry_def Let_def gm orUnknown_def)
  have seen: "ms_lastSeen r = Some (Max (m_created ` set g))"
    using Math_max_Max[of "map m_created g"] ne by (simp add: r modelEntry_def Let_def)
  have seen': "mh_lastSeen (ms_health r) = ms_lastSeen r"
    by (simp add: r modelEntry_def Let_def)
  have thr: "providerThrottled (ms_health r) = (3 \<le> count5m now st (ms_providerID r))"
    unfolding throttled_count5m[symmetric] by (simp add: r modelEntry_def Let_def)
  have status: "mh_status (ms_health r) =
      computeModelHealthStatus now (ms_lastSeen r) (providerThrottled (ms_health r))"
    by (simp add: r modelEntry_def Let_def)
  have status': "mh_status (ms_health r) =
           (if 3 \<le> count5m now st (ms_providerID r) then Error
            else if now - Max (m_created ` set g) > 30 * 60 * 1000 then Stale
            else Active)"
    unfolding status thr seen
    by (simp add: computeModelHealthStatus_def STALE_THRESHOLD_MS_def)
  have grp: "filter
            (\<lambda>m. (case m_modelID m of None \<Rightarrow> ''unknown''
                    | Some k \<Rightarrow> (if k = [] then ''unknown'' else k)) = ms_modelID r) msgs = g"
    unfolding id g key ..
  show "(let grp = filter
            (\<lambda>m. (case m_modelID m of None \<Rightarrow> ''unknown''
                    | Some k \<Rightarrow> (if k = [] then ''unknown'' else k)) = ms_modelID r) msgs
      in grp \<noteq> []
      \<and> ms_providerID r =
           (case m_providerID (hd grp) of None \<Rightarrow> ''unknown''
            | Some p \<Rightarrow> (if p = [] then ''unknown'' else p))
      \<and> ms_lastSeen r = Some (Max (m_created ` set grp))
      \<and> mh_lastSeen (ms_health r) = ms_lastSeen r
      \<and> providerThrottled (ms_health r) = (3 \<le> count5m now st (ms_providerID r))
      \<and> mh_status (ms_health r) =
           (if 3 \<le> count5m now st (ms_providerID r) then Error
            else if now - Max (m_created ` set grp) > 30 * 60 * 1000 then Stale
            else Active))"
    unfolding grp Let_def
    using ne prov seen seen' thr status' by blast
qed

lemmas model_defs = computeModelStats_def getRateLimitsInWindow_def groupBy_def
  modelEntry_def throttledProviders_def setAdd_def msgModel_def orUnknown_def
  computeWindowStats_def statsStep_def emptyStats_def computeModelHealthStatus_def
  STALE_THRESHOLD_MS_def

text \<open>
  Claim C6 at a concrete state, with \<open>now = 10000000\<close>: a model of the throttled provider
  P (stale, yet error), a model last seen 31 minutes ago, a model last seen 29 minutes
  ago, and two groups whose first message has no provider or an empty one, while the
  provider \<^verbatim>\<open>"unknown"\<close> has 3 recent events: both are error, and active without the
  events.
\<close>

theorem model_health_status_witness:
  "map (\<lambda>r. (ms_modelID r, ms_providerID r, mh_status (ms_health r), ms_lastSeen r))
     (computeModelStats (\<lambda>a b. 0) 10000000 modelState (messages modelState) ByCost) =
     [(''opus'', ''P'', Error, Some 9990000), (''gpt'', ''Q'', Stale, Some 8140000),
      (''gemini'', ''Q'', Active, Some 8260000),
      (''unknown'', ''unknown'', Error, Some 9999000),
      (''haiku'', ''unknown'', Error, Some 9999500)]
   \<and> count5m 10000000 modelState ''P'' = 3
   \<and> count5m 10000000 modelState ''Q'' = 1
   \<and> count5m 10000000 modelState ''unknown'' = 3
   \<and> map (\<lambda>r. (ms_modelID r, ms_providerID r, mh_status (ms_health r)))
        (computeModelStats (\<lambda>a b. 0) 10000000 (createInitialState 0)
           (messages modelState) ByCost) =
     [(''opus'', ''P'', Active), (''gpt'', ''Q'', Stale), (''gemini'', ''Q'', Active),
      (''unknown'', ''unknown'', Active), (''haiku'', ''unknown'', Active)]"
proof -
  have eval: "map (\<lambda>r. (ms_modelID r, ms_providerID r, mh_status (ms_health r), ms_lastSeen r))
     (computeModelStats (\<lambda>a b. 0) 10000000 modelState (messages modelState) ByCost) =
     [(''opus'', ''P'', Error, Some 9990000), (''gpt'', ''Q'', Stale, Some 8140000),
      (''gemini'', ''Q'', Active, Some 8260000),
      (''unknown'', ''unknown'', Error, Some 9999000),
      (''haiku'', ''unknown'', Error, Some 9999500)]"
    by (simp add: modelState_def run_def ingest_defs input_defs model_defs Let_def)
  have eval0: "map (\<lambda>r. (ms_modelID r, ms_providerID r, mh_status (ms_health r)))
        (computeModelStats (\<lambda>a b. 0) 10000000 (createInitialState 0)
           (messages modelState) ByCost) =
     [(''opus'', ''P'', Active), (''gpt'', ''Q'', Stale), (''gemini'', ''Q'', Active),
      (''unknown'', ''unknown'', Active), (''haiku'', ''unknown'', Active)]"
    by (simp add: modelState_def run_def ingest_defs input_defs model_defs Let_def)
  have counts: "count5m 10000000 modelState ''P'' = 3 \<and> count5m 10000000 modelState ''Q'' = 1
      \<and> count5m 10000000 modelState ''unknown'' = 3"
    by (simp add: modelState_def run_def ingest_defs input_defs count5m_def)
  from model_health_status[where lc = "\<lambda>a b. 0" and now = 10000000 and st = modelState
      and msgs = "messages modelState" and mode = ByCost] eval eval0 counts
  show ?thesis by simp
qed

section \<open>Properties of pruning\<close>

lemma pruneOldData_fields:
  "messages (pruneOldData now st maxAge) =
     filter (\<lambda>m. m_created m \<ge> cutoffOf now maxAge) (messages st)"
  "rateLimitEvents (pruneOldData now st maxAge) =
     filter (\<lambda>e. e_timestamp e \<ge> cutoffOf now maxAge) (rateLimitEvents st)"
  "timeSeries (pruneOldData now st maxAge) =
     filter (\<lambda>p. p_timestamp p \<ge> cutoffOf now maxAge) (timeSeries st)"
  "messageIndex (pruneOldData now st maxAge) =
     map_of (rev (map (\<lambda>m. (m_id m, m))
       (filter (\<lambda>m. m_created m \<ge> cutoffOf now maxAge) (messages st))))"
  by (simp_all add: pruneOldData_def Let_def cutoffOf_def)

lemma pruneOldData_idem:
  "pruneOldData now (pruneOldData now st maxAge) maxAge = pruneOldData now st maxAge"
  by (simp add: pruneOldData_def Let_def)

lemma dom_index_rebuilt:
  "dom (map_of (rev (map (\<lambda>m. (m_id m, m)) kept))) = m_id ` set kept"
  by (simp add: dom_map_of_conv_image_fst image_image)

text \<open>
  Claim C8. \<^verbatim>\<open>pruneOldData\<close> removes exactly the messages, the rate-limit events and
  the time-series points whose timestamp is strictly older than the cutoff
  \<open>now - maxAge\<close> (90 days by default); what is kept is a subsequence of what was there,
  so the surviving entries keep their relative order; the rebuilt identity index holds
  exactly the ids of the retained messages; and pruning twice at the same instant gives
  the state that pruning once gives.
\<close>

theorem prune_old_data:
  "messages (pruneOldData now st maxAge) =
     filter (\<lambda>m. \<not> m_created m < cutoffOf now maxAge) (messages st)
   \<and> rateLimitEvents (pruneOldData now st maxAge) =
     filter (\<lambda>e. \<not> e_timestamp e < cutoffOf now maxAge) (rateLimitEvents st)
   \<and> timeSeries (pruneOldData now st maxAge) =
     filter (\<lambda>p. \<not> p_timestamp p < cutoffOf now maxAge) (timeSeries st)
   \<and> subseq (messages (pruneOldData now st maxAge)) (messages st)
   \<and> subseq (rateLimitEvents (pruneOldData now st maxAge)) (rateLimitEvents st)
   \<and> subseq (timeSeries (pruneOldData now st maxAge)) (timeSeries st)
   \<and> dom (messageIndex (pruneOldData now st maxAge)) =
       m_id ` set (messages (pruneOldData now st maxAge))
   \<and> pruneOldData now (pruneOldData now st maxAge) maxAge = pruneOldData now st maxAge
   \<and> cutoffOf now None = now - 90 * 24 * 60 * 60 * 1000
   \<and> cutoffOf now (Some a) = now - a"
  by (simp add: pruneOldData_fields pruneOldData_idem dom_index_rebuilt not_less
      cutoffOf_def)

text \<open>Claim C8 at a concrete state, with the cutoff at 5000.\<close>

theorem prune_old_data_witness:
  "map m_created (messages pruneState) = [4999, 999000]
   \<and> map m_created (messages (pruneOldData 10000 pruneState (Some 5000))) = [999000]
   \<and> map e_timestamp (rateLimitEvents (pruneOldData 10000 pruneState (Some 5000))) = [5000]
   \<and> dom (messageIndex (pruneOldData 10000 pruneState (Some 5000))) = {''b''}
   \<and> pruneOldData 10000 (pruneOldData 10000 pruneState (Some 5000)) (Some 5000) =
       pruneOldData 10000 pruneState (Some 5000)"
proof -
  have msgs: "messages pruneState = [scenarioA 3999, scenarioB 1000000]"
    by (simp add: pruneState_def run_def ingest_defs input_defs)
  have evs: "rateLimitEvents pruneState = [mkEvent 4999 ''P'', mkEvent 5000 ''P'']"
    by (simp add: pruneState_def run_def ingest_defs input_defs)
  from prune_old_data[where now = 10000 and st = pruneState and maxAge = "Some 5000" and a = 5000]
    msgs evs
  show ?thesis
    by (simp add: input_defs)
qed

section \<open>The time series agrees with the ledger\<close>

lemma sum_list_sort_cmp:
  fixes f :: "'a \<Rightarrow> 'b::comm_monoid_add"
  shows "sum_list (map f (sort_cmp cmp xs)) = sum_list (map f xs)"
proof -
  have "mset (map f (sort_cmp cmp xs)) = mset (map f xs)"
    by (simp only: mset_map mset_sort_cmp)
  then show ?thesis by (metis sum_mset_sum_list)
qed

lemma bumpFirst_sums:
  assumes "find (\<lambda>p. p_timestamp p = b) ps \<noteq> None"
  shows "sum_list (map p_tokens (bumpFirst b tk c ps)) = sum_list (map p_tokens ps) + tk"
    and "sum_list (map p_cost (bumpFirst b tk c ps)) = sum_list (map p_cost ps) + c"
  using assms by (induction ps) (auto split: if_splits)

lemma updateTimeSeries_sums:
  "sum_list (map p_tokens (timeSeries (updateTimeSeries st m))) =
     sum_list (map p_tokens (timeSeries st)) + msgTokens m"
  "sum_list (map p_cost (timeSeries (updateTimeSeries st m))) =
     sum_list (map p_cost (timeSeries st)) + msgCost m"
proof -
  show "sum_list (map p_tokens (timeSeries (updateTimeSeries st m))) =
     sum_list (map p_tokens (timeSeries st)) + msgTokens m"
  proof (cases "m_tokens m")
    case None
    then show ?thesis by (simp add: updateTimeSeries_def msgTokens_def tokensOf_def)
  next
    case (Some t)
    show ?thesis
    proof (cases "find (\<lambda>p. p_timestamp p = (m_created m div 60000) * 60000) (timeSeries st)")
      case None
      then show ?thesis using Some
        by (simp add: updateTimeSeries_def Let_def sum_list_sort_cmp msgTokens_def tokensOf_def)
    next
      case (Some p)
      then have "find (\<lambda>p. p_timestamp p = (m_created m div 60000) * 60000) (timeSeries st) \<noteq> None"
        by simp
      from bumpFirst_sums(1)[OF this] Some \<open>m_tokens m = Some t\<close> show ?thesis
        by (simp add: updateTimeSeries_def Let_def msgTokens_def tokensOf_def)
    qed
  qed
  show "sum_list (map p_cost (timeSeries (updateTimeSeries st m))) =
     sum_list (map p_cost (timeSeries st)) + msgCost m"
  proof (cases "m_tokens m")
    case None
    then show ?thesis by (simp add: updateTimeSeries_def msgCost_def)
  next
    case (Some t)
    show ?thesis
    proof (cases "find (\<lambda>p. p_timestamp p = (m_created m div 60000) * 60000) (timeSeries st)")
      case None
      then show ?thesis using Some
        by (simp add: updateTimeSeries_def Let_def sum_list_sort_cmp msgCost_def)
    next
      case (Some p)
      then have "find (\<lambda>p. p_timestamp p = (m_created m div 60000) * 60000) (timeSeries st) \<noteq> None"
        by simp
      from bumpFirst_sums(2)[OF this] Some \<open>m_tokens m = Some t\<close> show ?thesis
        by (simp add: updateTimeSeries_def Let_def msgCost_def)
    qed
  qed
qed

lemma addMessage_consistent:
  assumes "seriesConsistent st"
  shows "seriesConsistent (snd (addMessage now st m))"
proof (cases "messageIndex st (m_id m)")
  case (Some a)
  then show ?thesis using assms by (simp add: addMessage_present)
next
  case None
  let ?st' = "st\<lparr> messageIndex := (messageIndex st)(m_id m \<mapsto> m),
                  messages := sort_cmp (\<lambda>a b. m_created a - m_created b) (messages st @ [m]),
                  lastUpdate := now \<rparr>"
  have snd: "snd (addMessage now st m) = updateTimeSeries ?st' m"
    using None by (simp add: addMessage_def)
  have tk: "totalTokens (getAllTimeStats (updateTimeSeries ?st' m)) =
      totalTokens (getAllTimeStats st) + msgTokens m"
    by (simp add: getAllTimeStats_def updateTimeSeries_fields computeWindowStats_sums
        sum_list_sort_cmp)
  have cs: "totalCost (getAllTimeStats (updateTimeSeries ?st' m)) =
      totalCost (getAllTimeStats st) + msgCost m"
    by (simp add: getAllTimeStats_def updateTimeSeries_fields computeWindowStats_sums
        sum_list_sort_cmp)
  show ?thesis
    using assms unfolding snd seriesConsistent_def tk cs updateTimeSeries_sums by simp
qed

lemma addMessagesLoop_consistent:
  "seriesConsistent st \<Longrightarrow> seriesConsistent (snd (addMessagesLoop now st msgs added))"
proof (induction msgs arbitrary: st added)
  case Nil
  then show ?case by simp
next
  case (Cons m ms)
  obtain r st' where am: "addMessage now st m = (r, st')" by (cases "addMessage now st m")
  have "seriesConsistent st'" using addMessage_consistent[OF Cons.prems, of now m] am by simp
  then show ?case using Cons.IH am by (cases r) simp_all
qed

lemma addRateLimitEvent_consistent:
  "seriesConsistent st \<Longrightarrow> seriesConsistent (addRateLimitEvent st e)"
  by (simp add: seriesConsistent_def addRateLimitEvent_def getAllTimeStats_def)

lemma call_consistent: "seriesConsistent st \<Longrightarrow> seriesConsistent (call st c)"
  by (cases c) (simp_all add: addMessage_consistent addMessages_def addMessagesLoop_consistent
      addRateLimitEvent_consistent)

lemma run_consistent: "seriesConsistent st \<Longrightarrow> seriesConsistent (run st calls)"
  unfolding run_def by (induction calls arbitrary: st) (simp_all add: call_consistent)

lemma initial_consistent: "seriesConsistent (createInitialState t0)"
  by (simp add: seriesConsistent_def createInitialState_def getAllTimeStats_def
      computeWindowStats_sums)

text \<open>
  Claim C10. After any sequence of \<^verbatim>\<open>addMessage\<close>, \<^verbatim>\<open>addMessages\<close> and
  \<^verbatim>\<open>addRateLimitEvent\<close> calls from the initial state (no pruning), the sum of the
  \<open>tokens\<close> fields of the time-series points equals the all-time \<open>totalTokens\<close>, and the
  sum of their \<open>cost\<close> fields equals the all-time \<open>totalCost\<close> (costs in exact
  arithmetic). A message without token data changes neither the time series nor the
  statistics.
\<close>

theorem time_series_consistent:
  "sum_list (map p_tokens (timeSeries (run (createInitialState t0) calls))) =
     totalTokens (getAllTimeStats (run (createInitialState t0) calls))
   \<and> sum_list (map p_cost (timeSeries (run (createInitialState t0) calls))) =
     totalCost (getAllTimeStats (run (createInitialState t0) calls))
   \<and> timeSeries (updateTimeSeries st (m\<lparr> m_tokens := None \<rparr>)) = timeSeries st
   \<and> computeWindowStats (msgs @ [m\<lparr> m_tokens := None \<rparr>]) = computeWindowStats msgs"
  using run_consistent[OF initial_consistent]
  by (simp add: seriesConsistent_def updateTimeSeries_def computeWindowStats_sums
      msgTokens_def tokensOf_def msgCost_def hasTokens_def)

text \<open>
  Claim C10 on a concrete sequence: two messages in the minute starting at 0, one in the
  minute starting at -60000, one without token data, one duplicate.
\<close>

theorem time_series_consistent_witness:
  "map (\<lambda>p. (p_timestamp p, p_tokens p, p_cost p))
       (timeSeries (run (createInitialState 0) seriesCalls)) =
     [(- 60000, 10, 1 / 100), (0, 36, 301 / 100)]
   \<and> totalTokens (getAllTimeStats (run (createInitialState 0) seriesCalls)) = 46
   \<and> totalCost (getAllTimeStats (run (createInitialState 0) seriesCalls)) = 302 / 100
   \<and> length (messages (run (createInitialState 0) seriesCalls)) = 4"
proof -
  have series: "map (\<lambda>p. (p_timestamp p, p_tokens p, p_cost p))
       (timeSeries (run (createInitialState 0) seriesCalls)) =
     [(- 60000, 10, 1 / 100), (0, 36, 301 / 100)]"
    by (simp add: seriesCalls_def run_def ingest_defs input_defs)
  have len: "length (messages (run (createInitialState 0) seriesCalls)) = 4"
    by (simp add: seriesCalls_def run_def ingest_defs input_defs)
  have "sum_list (map p_tokens (timeSeries (run (createInitialState 0) seriesCalls))) =
      sum_list (map (fst \<circ> snd) (map (\<lambda>p. (p_timestamp p, p_tokens p, p_cost p))
       (timeSeries (run (createInitialState 0) seriesCalls))))"
    by (simp add: comp_def)
  then have tk: "sum_list (map p_tokens (timeSeries (run (createInitialState 0) seriesCalls))) = 46"
    unfolding series by simp
  have "sum_list (map p_cost (timeSeries (run (createInitialState 0) seriesCalls))) =
      sum_list (map (snd \<circ> snd) (map (\<lambda>p. (p_timestamp p, p_tokens p, p_cost p))
       (timeSeries (run (createInitialState 0) seriesCalls))))"
    by (simp add: comp_def)
  then have cs: "sum_list (map p_cost (timeSeries (run (createInitialState 0) seriesCalls))) = 302 / 100"
    unfolding series by simp
  from time_series_consistent[where ?t0.0 = 0 and calls = seriesCalls] tk cs series len
  show ?thesis by simp
qed

section \<open>Properties of the rate-limit detection\<close>

lemma str_includes_iff: "str_includes s needle \<longleftrightarrow> (\<exists>ps ss. s = ps @ needle @ ss)"
proof (induction s)
  case Nil
  show ?case by auto
next
  case (Cons c cs)
  show ?case
  proof
    assume "str_includes (c # cs) needle"
    then consider "prefix needle (c # cs)" | "str_includes cs needle" by auto
    then show "\<exists>ps ss. c # cs = ps @ needle @ ss"
    proof cases
      case 1
      then obtain ss where "c # cs = needle @ ss" by (auto simp add: prefix_def)
      then have "c # cs = [] @ needle @ ss" by simp
      then show ?thesis by blast
    next
      case 2
      then obtain ps ss where "cs = ps @ needle @ ss" using Cons.IH by blast
      then have "c # cs = (c # ps) @ needle @ ss" by simp
      then show ?thesis by blast
    qed
  next
    assume "\<exists>ps ss. c # cs = ps @ needle @ ss"
    then obtain ps ss where eq: "c # cs = ps @ needle @ ss" by blast
    show "str_includes (c # cs) needle"
    proof (cases ps)
      case Nil
      then have "prefix needle (c # cs)" using eq by (simp add: prefix_def)
      then show ?thesis by simp
    next
      case (Cons p ps')
      then have "cs = ps' @ needle @ ss" using eq by simp
      then have "str_includes cs needle" using Cons.IH by blast
      then show ?thesis by simp
    qed
  qed
qed

lemma str_includes_sublist: "str_includes s needle \<longleftrightarrow> sublist needle s"
  by (simp add: str_includes_iff sublist_def)

lemma toLowerChar_digit:
  "toLowerChar c = CHR ''4'' \<longleftrightarrow> c = CHR ''4''"
  "toLowerChar c = CHR ''2'' \<longleftrightarrow> c = CHR ''2''"
  "toLowerChar c = CHR ''9'' \<longleftrightarrow> c = CHR ''9''"
  "CHR ''4'' = toLowerChar c \<longleftrightarrow> CHR ''4'' = c"
  "CHR ''2'' = toLowerChar c \<longleftrightarrow> CHR ''2'' = c"
  "CHR ''9'' = toLowerChar c \<longleftrightarrow> CHR ''9'' = c"
  by (auto simp add: toLowerChar_def split: option.splits if_splits)

lemma prefix_429_lower:
  "prefix ''429'' (map toLowerChar s) \<longleftrightarrow> prefix ''429'' s"
proof (cases s)
  case Nil
  then show ?thesis by simp
next
  case s1: (Cons a t)
  show ?thesis
  proof (cases t)
    case Nil
    then show ?thesis using s1 by (simp add: toLowerChar_digit)
  next
    case s2: (Cons b u)
    show ?thesis
    proof (cases u)
      case Nil
      then show ?thesis using s1 s2 by (simp add: toLowerChar_digit)
    next
      case (Cons c v)
      then show ?thesis using s1 s2 by (simp add: toLowerChar_digit)
    qed
  qed
qed

lemma str_includes_429_lower:
  "str_includes (toLowerCase s) ''429'' \<longleftrightarrow> str_includes s ''429''"
proof (induction s)
  case Nil
  show ?case by (simp add: toLowerCase_def)
next
  case (Cons c cs)
  have "prefix ''429'' (map toLowerChar (c # cs)) \<longleftrightarrow> prefix ''429'' (c # cs)"
    by (rule prefix_429_lower)
  then show ?case using Cons.IH by (simp add: toLowerCase_def)
qed

lemma toLowerCase_patterns:
  "map toLowerCase RATE_LIMIT_PATTERNS = RATE_LIMIT_PATTERNS"
  by (simp add: RATE_LIMIT_PATTERNS_def toLowerCase_def toLowerChar_def)

lemma isRateLimitError_iff:
  "isRateLimitError part \<longleftrightarrow>
     (stateField st_status part = Some ''completed'' \<or> stateField st_status part = Some ''error'')
     \<and> (sublist ''429'' (combinedText part)
        \<or> sublist ''too many requests'' (toLowerCase (combinedText part))
        \<or> sublist ''rate limit'' (toLowerCase (combinedText part))
        \<or> sublist ''throttl'' (toLowerCase (combinedText part))
        \<or> sublist ''quota exceeded'' (toLowerCase (combinedText part))
        \<or> sublist ''capacity'' (toLowerCase (combinedText part)))"
proof -
  have pats: "list_ex (\<lambda>pattern. regexTestI pattern t) RATE_LIMIT_PATTERNS \<longleftrightarrow>
      (sublist ''429'' t
        \<or> sublist ''too many requests'' (toLowerCase t)
        \<or> sublist ''rate limit'' (toLowerCase t)
        \<or> sublist ''throttl'' (toLowerCase t)
        \<or> sublist ''quota exceeded'' (toLowerCase t)
        \<or> sublist ''capacity'' (toLowerCase t))" for t
  proof -
    have "list_ex (\<lambda>pattern. regexTestI pattern t) RATE_LIMIT_PATTERNS \<longleftrightarrow>
        list_ex (\<lambda>pattern. str_includes (toLowerCase t) pattern) (map toLowerCase RATE_LIMIT_PATTERNS)"
      by (simp add: regexTestI_def list_ex_iff)
    also have "\<dots> \<longleftrightarrow> list_ex (\<lambda>pattern. str_includes (toLowerCase t) pattern) RATE_LIMIT_PATTERNS"
      by (simp only: toLowerCase_patterns)
    also have "\<dots> \<longleftrightarrow> (str_includes (toLowerCase t) ''429''
        \<or> str_includes (toLowerCase t) ''too many requests''
        \<or> str_includes (toLowerCase t) ''rate limit''
        \<or> str_includes (toLowerCase t) ''throttl''
        \<or> str_includes (toLowerCase t) ''quota exceeded''
        \<or> str_includes (toLowerCase t) ''capacity'')"
      by (simp add: RATE_LIMIT_PATTERNS_def)
    also have "\<dots> \<longleftrightarrow> (sublist ''429'' t
        \<or> sublist ''too many requests'' (toLowerCase t)
        \<or> sublist ''rate limit'' (toLowerCase t)
        \<or> sublist ''throttl'' (toLowerCase t)
        \<or> sublist ''quota exceeded'' (toLowerCase t)
        \<or> sublist ''capacity'' (toLowerCase t))"
      unfolding str_includes_429_lower unfolding str_includes_sublist by (rule refl)
    finally show ?thesis .
  qed
  show ?thesis
    unfolding isRateLimitError_def Let_def combinedText_def[symmetric] pats by auto
qed

lemma detectProvider_eq:
  "detectProvider text tool =
     (if list_ex (\<lambda>h. sublist h (toLowerCase (text @ orEmpty tool)))
           [''claude'', ''anthropic'', ''sonnet'', ''opus'', ''haiku''] then ''anthropic''
      else if list_ex (\<lambda>h. sublist h (toLowerCase (text @ orEmpty tool)))
           [''openai'', ''gpt'', ''o1'', ''o3'', ''chatgpt''] then ''openai''
      else if list_ex (\<lambda>h. sublist h (toLowerCase (text @ orEmpty tool)))
           [''google'', ''gemini'', ''palm'', ''vertex''] then ''google''
      else if sublist ''openrouter'' (toLowerCase (text @ orEmpty tool)) then ''openrouter''
      else ''unknown'')"
  by (simp add: detectProvider_def PROVIDER_HINTS_def Let_def str_includes_sublist)

text \<open>
  Claim C9, as amended. A part is a rate-limit incident exactly when its status is
  \<^verbatim>\<open>"completed"\<close> or \<^verbatim>\<open>"error"\<close> and its combined text (output, a space, error) contains
  \<^verbatim>\<open>429\<close> or, ignoring case, one of \<^verbatim>\<open>too many requests\<close>, \<^verbatim>\<open>rate limit\<close>,
  \<^verbatim>\<open>throttl\<close>, \<^verbatim>\<open>quota exceeded\<close>, \<^verbatim>\<open>capacity\<close>. The provider is the first of
  anthropic, openai, google, openrouter one of whose hints occurs, ignoring case, in the
  error text followed by the tool name, and \<^verbatim>\<open>"unknown"\<close> when no hint occurs; the hints
  are those of the claim and also \<^verbatim>\<open>anthropic\<close>, \<^verbatim>\<open>openai\<close>, \<^verbatim>\<open>google\<close> and
  \<^verbatim>\<open>palm\<close>. The event of an incident carries that provider and the first 200
  characters of the error text.
\<close>

theorem rate_limit_detection:
  "(isRateLimitError part \<longleftrightarrow>
     (stateField st_status part = Some ''completed'' \<or> stateField st_status part = Some ''error'')
     \<and> (sublist ''429'' (combinedText part)
        \<or> sublist ''too many requests'' (toLowerCase (combinedText part))
        \<or> sublist ''rate limit'' (toLowerCase (combinedText part))
        \<or> sublist ''throttl'' (toLowerCase (combinedText part))
        \<or> sublist ''quota exceeded'' (toLowerCase (combinedText part))
        \<or> sublist ''capacity'' (toLowerCase (combinedText part))))
   \<and> detectProvider errText tool =
     (if list_ex (\<lambda>h. sublist h (toLowerCase (errText @ orEmpty tool)))
           [''claude'', ''anthropic'', ''sonnet'', ''opus'', ''haiku''] then ''anthropic''
      else if list_ex (\<lambda>h. sublist h (toLowerCase (errText @ orEmpty tool)))
           [''openai'', ''gpt'', ''o1'', ''o3'', ''chatgpt''] then ''openai''
      else if list_ex (\<lambda>h. sublist h (toLowerCase (errText @ orEmpty tool)))
           [''google'', ''gemini'', ''palm'', ''vertex''] then ''google''
      else if sublist ''openrouter'' (toLowerCase (errText @ orEmpty tool)) then ''openrouter''
      else ''unknown'')
   \<and> rateLimitEventOf now part =
     (if isRateLimitError part
      then Some \<lparr> e_timestamp = now,
                  e_providerID = detectProvider (errorMessageOf part) (part_tool part),
                  e_modelID = None,
                  e_errorMessage = take 200 (errorMessageOf part),
                  e_partID = part_id part \<rparr>
      else None)"
proof (intro conjI)
  show "isRateLimitError part \<longleftrightarrow>
     (stateField st_status part = Some ''completed'' \<or> stateField st_status part = Some ''error'')
     \<and> (sublist ''429'' (combinedText part)
        \<or> sublist ''too many requests'' (toLowerCase (combinedText part))
        \<or> sublist ''rate limit'' (toLowerCase (combinedText part))
        \<or> sublist ''throttl'' (toLowerCase (combinedText part))
        \<or> sublist ''quota exceeded'' (toLowerCase (combinedText part))
        \<or> sublist ''capacity'' (toLowerCase (combinedText part)))"
    by (rule isRateLimitError_iff)
next
  show "detectProvider errText tool =
     (if list_ex (\<lambda>h. sublist h (toLowerCase (errText @ orEmpty tool)))
           [''claude'', ''anthropic'', ''sonnet'', ''opus'', ''haiku''] then ''anthropic''
      else if list_ex (\<lambda>h. sublist h (toLowerCase (errText @ orEmpty tool)))
           [''openai'', ''gpt'', ''o1'', ''o3'', ''chatgpt''] then ''openai''
      else if list_ex (\<lambda>h. sublist h (toLowerCase (errText @ orEmpty tool)))
           [''google'', ''gemini'', ''palm'', ''vertex''] then ''google''
      else if sublist ''openrouter'' (toLowerCase (errText @ orEmpty tool)) then ''openrouter''
      else ''unknown'')"
    by (rule detectProvider_eq)
next
  show "rateLimitEventOf now part =
     (if isRateLimitError part
      then Some \<lparr> e_timestamp = now,
                  e_providerID = detectProvider (errorMessageOf part) (part_tool part),
                  e_modelID = None,
                  e_errorMessage = take 200 (errorMessageOf part),
                  e_partID = part_id part \<rparr>
      else None)"
    by (simp add: rateLimitEventOf_def Let_def)
qed

lemmas detect_defs = detectProvider_def PROVIDER_HINTS_def orEmpty_def toLowerCase_def
  toLowerChar_def isRateLimitError_def RATE_LIMIT_PATTERNS_def regexTestI_def stateField_def
  errorMessageOf_def rateLimitEventOf_def mkPart_def

text \<open>
  Claim C9 as stated fails on the provider: a text whose only hint is \<^verbatim>\<open>palm\<close>, which
  the claim does not list, yields google and not \<^verbatim>\<open>"unknown"\<close>; and a text with both
  \<^verbatim>\<open>openrouter\<close> and \<^verbatim>\<open>gpt\<close> yields openai, since the table is scanned in order.
\<close>

theorem provider_hints_counterexample:
  "detectProvider ''PaLM capacity reached'' None = ''google''
   \<and> \<not> list_ex (\<lambda>h. str_includes (toLowerCase ''PaLM capacity reached'') h) claimedHints
   \<and> detectProvider ''openrouter: gpt-4 rate limit'' None = ''openai''
   \<and> str_includes (toLowerCase ''openrouter: gpt-4 rate limit'') ''openrouter''"
  by (simp add: detect_defs claimedHints_def)

text \<open>The amended claim C9 on three concrete parts.\<close>

theorem rate_limit_detection_witness:
  "isRateLimitError
     (mkPart ''prt_a'' (Some ''bash'') (Some ''error'') None (Some ''HTTP 429 Too Many Requests (Claude)''))
   \<and> \<not> isRateLimitError
     (mkPart ''prt_b'' (Some ''bash'') (Some ''running'') None (Some ''HTTP 429 Too Many Requests (Claude)''))
   \<and> rateLimitEventOf 7
     (mkPart ''prt_c'' (Some ''gemini-cli'') (Some ''completed'') (Some ''Rate'') (Some ''LIMIT hit'')) =
       Some \<lparr> e_timestamp = 7, e_providerID = ''google'', e_modelID = None,
              e_errorMessage = ''Rate'', e_partID = ''prt_c'' \<rparr>
   \<and> detectProvider ''HTTP 429 Too Many Requests (Claude)'' (Some ''bash'') = ''anthropic''
   \<and> detectProvider ''no hint here'' None = ''unknown''"
proof -
  have a: "isRateLimitError
     (mkPart ''prt_a'' (Some ''bash'') (Some ''error'') None (Some ''HTTP 429 Too Many Requests (Claude)''))"
    by (simp add: detect_defs)
  have b: "\<not> isRateLimitError
     (mkPart ''prt_b'' (Some ''bash'') (Some ''running'') None (Some ''HTTP 429 Too Many Requests (Claude)''))"
    by (simp add: detect_defs)
  have c: "isRateLimitError
     (mkPart ''prt_c'' (Some ''gemini-cli'') (Some ''completed'') (Some ''Rate'') (Some ''LIMIT hit''))"
    by (simp add: detect_defs)
  have d: "detectProvider ''Rate'' (Some ''gemini-cli'') = ''google''"
    by (simp add: detect_defs)
  have e: "detectProvider ''HTTP 429 Too Many Requests (Claude)'' (Some ''bash'') = ''anthropic''
      \<and> detectProvider ''no hint here'' None = ''unknown''"
    by (simp add: detect_defs)
  have f: "errorMessageOf
      (mkPart ''prt_c'' (Some ''gemini-cli'') (Some ''completed'') (Some ''Rate'') (Some ''LIMIT hit'')) = ''Rate''"
    by (simp add: detect_defs)
  have g: "part_tool (mkPart ''prt_c'' (Some ''gemini-cli'') (Some ''completed'') (Some ''Rate'') (Some ''LIMIT hit'')) = Some ''gemini-cli''
     \<and> part_id (mkPart ''prt_c'' (Some ''gemini-cli'') (Some ''completed'') (Some ''Rate'') (Some ''LIMIT hit'')) = ''prt_c''"
    by (simp add: mkPart_def)
  from rate_limit_detection[where now = 7
      and part = "mkPart ''prt_c'' (Some ''gemini-cli'') (Some ''completed'') (Some ''Rate'') (Some ''LIMIT hit'')"
      and errText = "''Rate''" and tool = "Some ''gemini-cli''"]
  have "rateLimitEventOf 7
     (mkPart ''prt_c'' (Some ''gemini-cli'') (Some ''completed'') (Some ''Rate'') (Some ''LIMIT hit'')) =
       Some \<lparr> e_timestamp = 7, e_providerID = ''google'', e_modelID = None,
              e_errorMessage = ''Rate'', e_partID = ''prt_c'' \<rparr>"
    unfolding f using c d g by simp
  with a b e show ?thesis by blast
qed

end
